theory Spec2Isabelle
  imports
    Complex_Main
    "HOL-Library.Char_ord"
    "HOL-Library.List_Lexorder"
    "HOL-Library.Product_Lexorder"
    "HOL-Library.Multiset"
begin

section \<open>Tour insights dashboard: the tables and the aggregations\<close>

text \<open>
  The script \<^verbatim>\<open>tour-insights-dashboard.py\<close> loads five tables per month
  (bookings, tours, guides, availability, skills), joins them with
  \<^verbatim>\<open>DataFrame.merge\<close> and aggregates them with \<^verbatim>\<open>value_counts\<close>,
  \<^verbatim>\<open>groupby\<close>, \<^verbatim>\<open>nunique\<close>, \<^verbatim>\<open>sort_values\<close> and
  \<^verbatim>\<open>drop_duplicates\<close>.  A table is a list of rows, a row is a record, a cell that
  can be missing (NaN, NaT) is an \<open>option\<close>.  The plotting code is left out.
\<close>

subsection \<open>Tables\<close>

text \<open>A parsed \<^verbatim>\<open>Timestamp\<close>: year, month, day.\<close>

type_synonym date = "int \<times> int \<times> int"

text \<open>
  Key columns are read from CSV and may be empty; \<^verbatim>\<open>merge\<close> matches two
  missing keys with each other, which is what equality on \<open>option\<close> does.
\<close>

type_synonym ident = "int option"

record booking =
  BookingID :: int
  bk_TourID :: ident
  bk_GuideID :: ident
  BookingDate :: "date option"

text \<open>
  The text columns TourName, TourLocation, TimeStart, TimeEnd, GuideName and
  GuideLocation went through \<^verbatim>\<open>astype(str)\<close> in \<^verbatim>\<open>load_month_data\<close>, so
  inside their own table they are always strings.  The column \<^verbatim>\<open>id\<close> of the
  tours and of the guides table is \<open>tour_id\<close> and \<open>guide_id\<close> here.
\<close>

record tour =
  tour_id :: ident
  TourName :: string
  TourLocation :: string
  TimeStart :: string
  TimeEnd :: string
  Op_Monday :: "int option"
  Op_Tuesday :: "int option"
  Op_Wednesday :: "int option"
  Op_Thursday :: "int option"
  Op_Friday :: "int option"
  Op_Saturday :: "int option"
  Op_Sunday :: "int option"

record guide =
  guide_id :: ident
  GuideName :: string
  GuideLocation :: string

record availability =
  av_GuideID :: ident
  AvailabilityDate :: "date option"
  GuideAvailability :: "string option"

text \<open>A \<^verbatim>\<open>Series\<close> of integers indexed by a name, in row order.\<close>

type_synonym series = "(string \<times> int) list"

subsection \<open>The dataframe operations the script calls\<close>

text \<open>
  \<^verbatim>\<open>left.merge(right, left_on=.., right_on=.., how="left")\<close>: every left row, in
  order, once per matching right row, and once with the right side missing when no right
  row matches.
\<close>

definition merge_left :: "('a \<Rightarrow> 'k) \<Rightarrow> ('b \<Rightarrow> 'k) \<Rightarrow> 'a list \<Rightarrow> 'b list \<Rightarrow> ('a \<times> 'b option) list" where
  "merge_left left_on right_on left right =
     concat (map (\<lambda>l. case filter (\<lambda>r. right_on r = left_on l) right of
                          [] \<Rightarrow> [(l, None)]
                        | ms \<Rightarrow> map (\<lambda>r. (l, Some r)) ms) left)"

text \<open>Dropping the missing cells of a column (\<^verbatim>\<open>dropna\<close>).\<close>

fun dropna :: "'a option list \<Rightarrow> 'a list" where
  "dropna [] = []"
| "dropna (None # cs) = dropna cs"
| "dropna (Some v # cs) = v # dropna cs"

text \<open>
  One pass that keeps the first row of every key, in order of appearance; \<open>seen\<close> holds
  the keys met so far.  It is \<^verbatim>\<open>drop_duplicates(subset=.., keep="first")\<close>, and
  on a column with the identity as key it is the order in which the hash table behind
  \<^verbatim>\<open>value_counts\<close> and \<^verbatim>\<open>unique\<close> meets the values.
\<close>

fun keep_first :: "('a \<Rightarrow> 'k) \<Rightarrow> 'k list \<Rightarrow> 'a list \<Rightarrow> 'a list" where
  "keep_first key seen [] = []"
| "keep_first key seen (x # xs) =
     (if key x \<in> set seen then keep_first key seen xs
      else x # keep_first key (key x # seen) xs)"

definition drop_duplicates :: "('a \<Rightarrow> 'k) \<Rightarrow> 'a list \<Rightarrow> 'a list" where
  "drop_duplicates key rows = keep_first key [] rows"

definition unique :: "'a list \<Rightarrow> 'a list" where
  "unique vals = keep_first (\<lambda>v. v) [] vals"

text \<open>
  \<^verbatim>\<open>sort_values(.., ascending=False)\<close>.  The library computes from the sort column
  the positions of the rows in descending order of their values (its \<^verbatim>\<open>nargsort\<close>)
  and takes the rows in that order.  The script passes no \<^verbatim>\<open>kind\<close>, and for the
  default the library does not fix the order of rows with equal values: it is that of
  the sorting kernel of the installed version.  So the kernel is a parameter of every
  function that sorts, and all that is known of it is \<open>sorts_descending\<close>: it returns
  every position once, and the values along its result descend.
\<close>

definition sort_values_desc :: "('k list \<Rightarrow> nat list) \<Rightarrow> ('a \<Rightarrow> 'k) \<Rightarrow> 'a list \<Rightarrow> 'a list" where
  "sort_values_desc nargsort col rows = map (\<lambda>i. rows ! i) (nargsort (map col rows))"

definition sorts_descending :: "('k::linorder list \<Rightarrow> nat list) \<Rightarrow> bool" where
  "sorts_descending nargsort =
     (\<forall>keys. distinct (nargsort keys) \<and> set (nargsort keys) = {0..<length keys}
           \<and> sorted (rev (map (\<lambda>i. keys ! i) (nargsort keys))))"

text \<open>
  Two kernels.  The first leaves rows with equal values in the order they had, the second
  returns them in the opposite order.
\<close>

definition nargsort_stable :: "'k::linorder list \<Rightarrow> nat list" where
  "nargsort_stable keys = rev (map snd (sort_key fst (rev (zip keys [0..<length keys]))))"

definition nargsort_reversed :: "'k::linorder list \<Rightarrow> nat list" where
  "nargsort_reversed keys = rev (map snd (sort_key fst (zip keys [0..<length keys])))"

text \<open>
  \<^verbatim>\<open>value_counts()\<close>: the missing cells are dropped, each remaining value is
  counted, and the counts are sorted in descending order.
\<close>

definition value_counts :: "(int list \<Rightarrow> nat list) \<Rightarrow> string option list \<Rightarrow> series" where
  "value_counts nargsort col =
     (let vals = dropna col
      in sort_values_desc nargsort snd (map (\<lambda>k. (k, int (count_list vals k))) (unique vals)))"

definition head :: "nat \<Rightarrow> 'a list \<Rightarrow> 'a list" where
  "head n rows = take n rows"

text \<open>
  \<^verbatim>\<open>groupby(key)[col].nunique()\<close>: rows whose key is missing belong to no group,
  the groups are the keys in ascending order, and each group counts the distinct values
  of \<open>col\<close> that are not missing.
\<close>

definition groupby_nunique :: "('a \<Rightarrow> string option) \<Rightarrow> ('a \<Rightarrow> 'v option) \<Rightarrow> 'a list \<Rightarrow> series" where
  "groupby_nunique key col rows =
     map (\<lambda>k. (k, int (length (remdups (dropna (map col (filter (\<lambda>r. key r = Some k) rows)))))))
         (sort (remdups (dropna (map key rows))))"

text \<open>\<^verbatim>\<open>df[cols].sum(axis=1)\<close>: the sum along a row, a missing cell counting 0.\<close>

definition sum_axis1 :: "int option list \<Rightarrow> int" where
  "sum_axis1 cells = sum_list (dropna cells)"

subsection \<open>Operating days of a tour\<close>

definition week_cols :: "tour \<Rightarrow> int option list" where
  "week_cols t =
     [Op_Monday t, Op_Tuesday t, Op_Wednesday t, Op_Thursday t,
      Op_Friday t, Op_Saturday t, Op_Sunday t]"

definition Tours_Operating_Days :: "tour \<Rightarrow> int" where
  "Tours_Operating_Days t = sum_axis1 (week_cols t)"

subsection \<open>Joins (lines 99-134 and 593-598)\<close>

definition bookings_tours :: "booking list \<Rightarrow> tour list \<Rightarrow> (booking \<times> tour option) list" where
  "bookings_tours bookings tours = merge_left bk_TourID tour_id bookings tours"

definition bookings_merged ::
  "booking list \<Rightarrow> tour list \<Rightarrow> guide list \<Rightarrow> ((booking \<times> tour option) \<times> guide option) list" where
  "bookings_merged bookings tours guides =
     merge_left (\<lambda>r. bk_GuideID (fst r)) guide_id (bookings_tours bookings tours) guides"

text \<open>The columns of the joined tables that the aggregations read.\<close>

definition bt_TourName :: "booking \<times> tour option \<Rightarrow> string option" where
  "bt_TourName r = map_option TourName (snd r)"

definition bm_GuideName :: "(booking \<times> tour option) \<times> guide option \<Rightarrow> string option" where
  "bm_GuideName r = map_option GuideName (snd r)"

definition bm_BookingDate :: "(booking \<times> tour option) \<times> guide option \<Rightarrow> date option" where
  "bm_BookingDate r = BookingDate (fst (fst r))"

text \<open>
  Column names.  \<^verbatim>\<open>merge\<close> with different key names keeps every column of both
  sides; a name that occurs on both sides gets the suffix \<^verbatim>\<open>_x\<close> on the left and
  \<^verbatim>\<open>_y\<close> on the right.  Lines 117-125 then rename \<^verbatim>\<open>id_x\<close> and
  \<^verbatim>\<open>id_y\<close>.
\<close>

definition merge_columns :: "string list \<Rightarrow> string list \<Rightarrow> string list" where
  "merge_columns lcols rcols =
     map (\<lambda>c. if c \<in> set rcols then c @ ''_x'' else c) lcols
     @ map (\<lambda>c. if c \<in> set lcols then c @ ''_y'' else c) rcols"

definition rename_cols :: "string list \<Rightarrow> (string \<times> string) list" where
  "rename_cols columns =
     (if ''id_x'' \<in> set columns then [(''id_x'', ''TourID_Source'')] else [])
     @ (if ''id_y'' \<in> set columns then [(''id_y'', ''GuideID_Source'')] else [])"

definition rename :: "(string \<times> string) list \<Rightarrow> string list \<Rightarrow> string list" where
  "rename mapper columns = map (\<lambda>c. case map_of mapper c of None \<Rightarrow> c | Some c' \<Rightarrow> c') columns"

definition bookings_merged_columns :: "string list \<Rightarrow> string list \<Rightarrow> string list \<Rightarrow> string list" where
  "bookings_merged_columns bookings_cols tours_cols guides_cols =
     (let columns = merge_columns (merge_columns bookings_cols tours_cols) guides_cols
      in if rename_cols columns = [] then columns else rename (rename_cols columns) columns)"

definition availability_days_guides ::
  "guide list \<Rightarrow> availability list \<Rightarrow> (guide \<times> availability option) list" where
  "availability_days_guides guides availability = merge_left guide_id av_GuideID guides availability"

definition adg_GuideName :: "guide \<times> availability option \<Rightarrow> string option" where
  "adg_GuideName r = Some (GuideName (fst r))"

definition adg_AvailabilityDate :: "guide \<times> availability option \<Rightarrow> date option" where
  "adg_AvailabilityDate r = (case snd r of None \<Rightarrow> None | Some a \<Rightarrow> AvailabilityDate a)"

definition adg_GuideAvailability :: "guide \<times> availability option \<Rightarrow> string option" where
  "adg_GuideAvailability r = (case snd r of None \<Rightarrow> None | Some a \<Rightarrow> GuideAvailability a)"

subsection \<open>Bookings per tour and per guide (lines 139-141 and 476-479)\<close>

definition top_tours :: "(int list \<Rightarrow> nat list) \<Rightarrow> (booking \<times> tour option) list \<Rightarrow> series" where
  "top_tours nargsort bt = head 10 (value_counts nargsort (map bt_TourName bt))"

definition top_guides_03_2025 ::
  "(int list \<Rightarrow> nat list) \<Rightarrow> ((booking \<times> tour option) \<times> guide option) list \<Rightarrow> series" where
  "top_guides_03_2025 nargsort bm = head 10 (value_counts nargsort (map bm_GuideName bm))"

subsection \<open>Availability days (lines 604-619 and 773-781)\<close>

definition valid_avail_03 :: "(guide \<times> availability option) list \<Rightarrow> (guide \<times> availability option) list" where
  "valid_avail_03 availability_data_03 =
     filter (\<lambda>r. adg_GuideAvailability r \<noteq> None \<and> adg_GuideAvailability r \<noteq> Some [])
            availability_data_03"

text \<open>Insight 5.1, every guide; insight 4.1 shows its first ten rows.\<close>

definition available_days_per_guide_03 ::
  "(int list \<Rightarrow> nat list) \<Rightarrow> (guide \<times> availability option) list \<Rightarrow> series" where
  "available_days_per_guide_03 nargsort valid =
     sort_values_desc nargsort snd (groupby_nunique adg_GuideName adg_AvailabilityDate valid)"

definition available_days_per_guide_03_top10 ::
  "(int list \<Rightarrow> nat list) \<Rightarrow> (guide \<times> availability option) list \<Rightarrow> series" where
  "available_days_per_guide_03_top10 nargsort valid =
     head 10 (available_days_per_guide_03 nargsort valid)"

subsection \<open>Days not available (lines 29-31 and 1011-1020)\<close>

datatype error = IllegalMonthError int

definition YEAR :: int where
  "YEAR = 2025"

definition isleap :: "int \<Rightarrow> bool" where
  "isleap year = (year mod 4 = 0 \<and> (year mod 100 \<noteq> 0 \<or> year mod 400 = 0))"

definition mdays :: "int list" where
  "mdays = [0, 31, 28, 31, 30, 31, 30, 31, 31, 30, 31, 30, 31]"

text \<open>The second component of \<^verbatim>\<open>calendar.monthrange(year, month)\<close>.\<close>

definition monthrange_ndays :: "int \<Rightarrow> int \<Rightarrow> error + int" where
  "monthrange_ndays year month =
     (if \<not> (1 \<le> month \<and> month \<le> 12) then Inl (IllegalMonthError month)
      else Inr (mdays ! nat month + (if month = 2 \<and> isleap year then 1 else 0)))"

definition get_days_in_month :: "int \<Rightarrow> int \<Rightarrow> error + int" where
  "get_days_in_month month year = monthrange_ndays year month"

text \<open>
  \<open>not_available month\<close> is the block of insight 6 for the month: the scalar minus the
  series, element by element, then the descending sort.
\<close>

definition not_available :: "(int list \<Rightarrow> nat list) \<Rightarrow> int \<Rightarrow> series \<Rightarrow> error + series" where
  "not_available nargsort month available_days =
     (case monthrange_ndays YEAR month of
        Inl e \<Rightarrow> Inl e
      | Inr days_in_month \<Rightarrow>
          Inr (sort_values_desc nargsort snd
                 (map (\<lambda>r. (fst r, days_in_month - snd r)) available_days)))"

definition not_available_03_2025 :: "(int list \<Rightarrow> nat list) \<Rightarrow> series \<Rightarrow> error + series" where
  "not_available_03_2025 nargsort available_days = not_available nargsort 3 available_days"

subsection \<open>Occupancy (lines 1150-1162 and 1339-1366)\<close>

definition occupied_days_03_2025 ::
  "(int list \<Rightarrow> nat list) \<Rightarrow> ((booking \<times> tour option) \<times> guide option) list \<Rightarrow> series" where
  "occupied_days_03_2025 nargsort bookings_merged_03 =
     sort_values_desc nargsort snd
       (groupby_nunique bm_GuideName bm_BookingDate bookings_merged_03)"

text \<open>
  A \<^verbatim>\<open>float64\<close> cell: NaN, an infinity, or a finite binary64 number, kept as the
  rational it is.
\<close>

datatype float64 = NaN | PosInf | NegInf | Finite rat

text \<open>Rounding to the nearest integer, a tie going to the even neighbour.\<close>

definition rint :: "rat \<Rightarrow> int" where
  "rint q =
     (let f = \<lfloor>q\<rfloor>; d = q - of_int f
      in if d < 1 / 2 then f else if 1 / 2 < d then f + 1 else if even f then f else f + 1)"

text \<open>
  Every arithmetic operation on binary64 numbers returns the exact result rounded to the
  nearest binary64 number, a tie going to the even significand.  \<open>float64_of q\<close> is that
  rounding: with \<open>2 ^ e \<le> |q| < 2 ^ (e + 1)\<close> the result has a significand of 53 bits at
  the exponent \<open>e\<close>.  The exponent range of the format is not modelled: the operands
  here are day counts of 64 bits, their quotient and its multiples by 100 and 10000,
  which neither overflow nor reach the subnormal numbers.
\<close>

function bit_length :: "int \<Rightarrow> int" where
  "bit_length n = (if n \<le> 0 then 0 else 1 + bit_length (n div 2))"
  by pat_completeness auto
termination
  by (relation "measure nat") auto

declare bit_length.simps [simp del]

definition pow2 :: "int \<Rightarrow> rat" where
  "pow2 e = (if 0 \<le> e then 2 ^ nat e else 1 / 2 ^ nat (- e))"

definition floor_log2 :: "rat \<Rightarrow> int" where
  "floor_log2 a =
     (let c = bit_length (fst (quotient_of a)) - bit_length (snd (quotient_of a))
      in if pow2 c \<le> a then c else c - 1)"

definition float64_of :: "rat \<Rightarrow> rat" where
  "float64_of q =
     (if q = 0 then 0
      else let s = floor_log2 \<bar>q\<bar> - 52
           in sgn q * of_int (rint (\<bar>q\<bar> / pow2 s)) * pow2 s)"

text \<open>
  Division of two columns of day counts, which are converted to binary64 first: a missing
  operand gives NaN, a zero divisor gives an infinity with the sign of the dividend, and
  NaN when the dividend is zero too.  Nothing is raised.
\<close>

definition truediv :: "int option \<Rightarrow> int option \<Rightarrow> float64" where
  "truediv x y =
     (case x of None \<Rightarrow> NaN
      | Some a \<Rightarrow> (case y of None \<Rightarrow> NaN
          | Some b \<Rightarrow>
              if b = 0 then (if 0 < a then PosInf else if a < 0 then NegInf else NaN)
              else Finite (float64_of (float64_of (of_int a) / float64_of (of_int b)))))"

definition mul_scalar :: "float64 \<Rightarrow> rat \<Rightarrow> float64" where
  "mul_scalar v c = (case v of Finite q \<Rightarrow> Finite (float64_of (q * c)) | _ \<Rightarrow> v)"

text \<open>
  \<^verbatim>\<open>.round(2)\<close> on a column of binary64 numbers: multiply by 100, round to the
  nearest integer, divide by 100, each step an operation of the format.
\<close>

definition round_decimals2 :: "float64 \<Rightarrow> float64" where
  "round_decimals2 v =
     (case v of
        Finite q \<Rightarrow> Finite (float64_of (of_int (rint (float64_of (q * 100))) / 100))
      | _ \<Rightarrow> v)"

definition OccupancyPct :: "int option \<Rightarrow> int option \<Rightarrow> float64" where
  "OccupancyPct DaysOccupied AvailableDays =
     round_decimals2 (mul_scalar (truediv DaysOccupied AvailableDays) 100)"

text \<open>
  The frame built from the two series has the union of their indexes; a guide missing
  from one series has a missing cell there.  Both series are results of a
  \<^verbatim>\<open>groupby\<close>, so a name occurs at most once in each and the cell of a name is
  the value the series gives it.
\<close>

definition stats :: "series \<Rightarrow> series \<Rightarrow> (string \<times> int option \<times> int option \<times> float64) list" where
  "stats occupied_days_series available_days_series =
     map (\<lambda>k. (k, map_of occupied_days_series k, map_of available_days_series k,
                OccupancyPct (map_of occupied_days_series k) (map_of available_days_series k)))
         (sort (remdups (map fst occupied_days_series @ map fst available_days_series)))"

text \<open>
  Descending sort on the percentage: the rows with a number or an infinity in descending
  order, by a kernel for these values, then the NaN rows.  \<open>pct_key\<close> orders the values
  that are not NaN.
\<close>

definition pct_key :: "float64 \<Rightarrow> int \<times> rat" where
  "pct_key v = (case v of PosInf \<Rightarrow> (1, 0) | Finite q \<Rightarrow> (0, q) | NegInf \<Rightarrow> (- 1, 0) | NaN \<Rightarrow> (0, 0))"

definition occupancy_table_03_2025 ::
  "(int list \<Rightarrow> nat list) \<Rightarrow> ((int \<times> rat) list \<Rightarrow> nat list)
   \<Rightarrow> ((booking \<times> tour option) \<times> guide option) list \<Rightarrow> (guide \<times> availability option) list
   \<Rightarrow> (string \<times> int option \<times> int option \<times> float64) list" where
  "occupancy_table_03_2025 nargsort nargsort_pct bookings_merged_03 valid =
     (let rows = stats (occupied_days_03_2025 nargsort bookings_merged_03)
                       (available_days_per_guide_03 nargsort valid)
      in sort_values_desc nargsort_pct (\<lambda>r. pct_key (snd (snd (snd r))))
           (filter (\<lambda>r. snd (snd (snd r)) \<noteq> NaN) rows)
         @ filter (\<lambda>r. snd (snd (snd r)) = NaN) rows)"

subsection \<open>Operating days by location and common time slot (lines 1702-1727 and 2048-2084)\<close>

definition location_totals_03_2025 :: "(int list \<Rightarrow> nat list) \<Rightarrow> tour list \<Rightarrow> series" where
  "location_totals_03_2025 nargsort tours_03_2025 =
     sort_values_desc nargsort snd
       (map (\<lambda>k. (k, sum_list (map Tours_Operating_Days (filter (\<lambda>t. TourLocation t = k) tours_03_2025))))
            (sort (remdups (map TourLocation tours_03_2025))))"

definition TimeSlot :: "tour \<Rightarrow> string" where
  "TimeSlot t = TimeStart t @ '' - '' @ TimeEnd t"

definition active_tours_03_2025 :: "tour list \<Rightarrow> tour list" where
  "active_tours_03_2025 tours_03_2025 = filter (\<lambda>t. 0 < Tours_Operating_Days t) tours_03_2025"

text \<open>\<^verbatim>\<open>groupby(["TourLocation", "TimeSlot"]).size().reset_index(name="Count")\<close>\<close>

definition slot_counts_03_2025 :: "tour list \<Rightarrow> (string \<times> string \<times> int) list" where
  "slot_counts_03_2025 active =
     map (\<lambda>k. (fst k, snd k, int (length (filter (\<lambda>t. (TourLocation t, TimeSlot t) = k) active))))
         (sort (remdups (map (\<lambda>t. (TourLocation t, TimeSlot t)) active)))"

definition top_slot_03_2025 ::
  "(int list \<Rightarrow> nat list) \<Rightarrow> tour list \<Rightarrow> (string \<times> string \<times> int) list" where
  "top_slot_03_2025 nargsort tours_03_2025 =
     drop_duplicates fst
       (sort_values_desc nargsort (\<lambda>r. snd (snd r))
          (slot_counts_03_2025 (active_tours_03_2025 tours_03_2025)))"

subsection \<open>Combining the months (lines 935-958 and 1922-1957)\<close>

text \<open>A frame keyed by a name column, with a row of value cells.\<close>

type_synonym frame = "(string \<times> int option list) list"

definition reset_index :: "series \<Rightarrow> frame" where
  "reset_index s = map (\<lambda>r. (fst r, [Some (snd r)])) s"

text \<open>
  \<^verbatim>\<open>pd.merge(left, right, on=key, how="outer")\<close>: the keys of both sides in
  lexicographic order; under each key every left row paired with every right row, a side
  without the key standing in with missing cells.  \<open>wl\<close> and \<open>wr\<close> are the numbers of
  value columns of the two sides.
\<close>

definition merge_outer :: "nat \<Rightarrow> nat \<Rightarrow> frame \<Rightarrow> frame \<Rightarrow> frame" where
  "merge_outer wl wr left right =
     concat (map (\<lambda>k.
        let ls = map snd (filter (\<lambda>r. fst r = k) left);
            rs = map snd (filter (\<lambda>r. fst r = k) right);
            ls' = (if ls = [] then [replicate wl None] else ls);
            rs' = (if rs = [] then [replicate wr None] else rs)
        in concat (map (\<lambda>l. map (\<lambda>r. (k, l @ r)) rs') ls'))
       (sort (remdups (map fst left @ map fst right))))"

definition fillna0 :: "frame \<Rightarrow> (string \<times> int list) list" where
  "fillna0 f = map (\<lambda>r. (fst r, map (\<lambda>c. case c of None \<Rightarrow> 0 | Some v \<Rightarrow> v) (snd r))) f"

definition merged :: "series \<Rightarrow> series \<Rightarrow> series \<Rightarrow> series \<Rightarrow> (string \<times> int list \<times> int) list" where
  "merged s03 s04 s05 s06 =
     map (\<lambda>r. (fst r, snd r, snd r ! 0 + snd r ! 1 + snd r ! 2 + snd r ! 3))
       (fillna0
          (merge_outer 3 1
             (merge_outer 2 1
                (merge_outer 1 1 (reset_index s03) (reset_index s04))
                (reset_index s05))
             (reset_index s06)))"

definition location_days_combined ::
  "(int list \<Rightarrow> nat list) \<Rightarrow> series \<Rightarrow> series \<Rightarrow> series \<Rightarrow> series
   \<Rightarrow> (string \<times> int list \<times> int) list" where
  "location_days_combined nargsort l03 l04 l05 l06 =
     sort_values_desc nargsort (\<lambda>r. snd (snd r))
       (map (\<lambda>r. (fst r, snd r, snd r ! 0 + snd r ! 1 + snd r ! 2 + snd r ! 3))
          (fillna0
             (merge_outer 3 1
                (merge_outer 2 1
                   (merge_outer 1 1 (reset_index l03) (reset_index l04))
                   (reset_index l05))
                (reset_index l06))))"

subsection \<open>Position of the first occurrence\<close>

text \<open>
  Used to state in which order ties come out: the index at which a value first occurs in
  a column (the length of the column when it does not occur).
\<close>

definition first_pos :: "'a \<Rightarrow> 'a list \<Rightarrow> nat" where
  "first_pos v col = length (takeWhile (\<lambda>x. x \<noteq> v) col)"

subsection \<open>A small month of data\<close>

text \<open>
  Five tours in two locations (the fifth runs on no weekday), two guides, six bookings
  (the fifth names a guide and the sixth a tour that do not exist), and four availability
  records: a day entered twice, an empty slot, and a record of an unknown guide.
\<close>

definition ex_tours :: "tour list" where
  "ex_tours =
     [\<lparr>tour_id = Some 1, TourName = ''T1'', TourLocation = ''Madrid'',
       TimeStart = ''09:00'', TimeEnd = ''11:00'',
       Op_Monday = Some 1, Op_Tuesday = Some 0, Op_Wednesday = Some 1, Op_Thursday = Some 0,
       Op_Friday = Some 1, Op_Saturday = Some 1, Op_Sunday = Some 0\<rparr>,
      \<lparr>tour_id = Some 2, TourName = ''T2'', TourLocation = ''Madrid'',
       TimeStart = ''09:00'', TimeEnd = ''11:00'',
       Op_Monday = Some 1, Op_Tuesday = Some 1, Op_Wednesday = Some 1, Op_Thursday = Some 1,
       Op_Friday = Some 1, Op_Saturday = Some 0, Op_Sunday = Some 0\<rparr>,
      \<lparr>tour_id = Some 3, TourName = ''T3'', TourLocation = ''Madrid'',
       TimeStart = ''15:00'', TimeEnd = ''17:00'',
       Op_Monday = Some 0, Op_Tuesday = Some 0, Op_Wednesday = Some 0, Op_Thursday = Some 0,
       Op_Friday = Some 0, Op_Saturday = Some 1, Op_Sunday = Some 1\<rparr>,
      \<lparr>tour_id = Some 4, TourName = ''T4'', TourLocation = ''Sevilla'',
       TimeStart = ''10:00'', TimeEnd = ''12:00'',
       Op_Monday = Some 1, Op_Tuesday = Some 1, Op_Wednesday = Some 1, Op_Thursday = Some 1,
       Op_Friday = Some 1, Op_Saturday = Some 1, Op_Sunday = Some 1\<rparr>,
      \<lparr>tour_id = Some 5, TourName = ''T5'', TourLocation = ''Sevilla'',
       TimeStart = ''18:00'', TimeEnd = ''20:00'',
       Op_Monday = Some 0, Op_Tuesday = Some 0, Op_Wednesday = Some 0, Op_Thursday = Some 0,
       Op_Friday = Some 0, Op_Saturday = Some 0, Op_Sunday = Some 0\<rparr>]"

definition ex_guides :: "guide list" where
  "ex_guides =
     [\<lparr>guide_id = Some 1, GuideName = ''G1'', GuideLocation = ''Madrid''\<rparr>,
      \<lparr>guide_id = Some 2, GuideName = ''G2'', GuideLocation = ''Sevilla''\<rparr>]"

definition ex_bookings :: "booking list" where
  "ex_bookings =
     [\<lparr>BookingID = 1, bk_TourID = Some 2, bk_GuideID = Some 1, BookingDate = Some (2025, 3, 1)\<rparr>,
      \<lparr>BookingID = 2, bk_TourID = Some 1, bk_GuideID = Some 2, BookingDate = Some (2025, 3, 1)\<rparr>,
      \<lparr>BookingID = 3, bk_TourID = Some 1, bk_GuideID = Some 1, BookingDate = Some (2025, 3, 2)\<rparr>,
      \<lparr>BookingID = 4, bk_TourID = Some 3, bk_GuideID = Some 1, BookingDate = Some (2025, 3, 2)\<rparr>,
      \<lparr>BookingID = 5, bk_TourID = Some 3, bk_GuideID = Some 9, BookingDate = Some (2025, 3, 3)\<rparr>,
      \<lparr>BookingID = 6, bk_TourID = Some 99, bk_GuideID = Some 2, BookingDate = Some (2025, 3, 3)\<rparr>]"

definition ex_availability :: "availability list" where
  "ex_availability =
     [\<lparr>av_GuideID = Some 1, AvailabilityDate = Some (2025, 3, 1), GuideAvailability = Some ''9-12''\<rparr>,
      \<lparr>av_GuideID = Some 1, AvailabilityDate = Some (2025, 3, 1), GuideAvailability = Some ''13-15''\<rparr>,
      \<lparr>av_GuideID = Some 1, AvailabilityDate = Some (2025, 3, 2), GuideAvailability = Some ''''\<rparr>,
      \<lparr>av_GuideID = Some 7, AvailabilityDate = Some (2025, 3, 2), GuideAvailability = Some ''9-12''\<rparr>]"

text \<open>
  Availability of the first guide on the 31 days of March and on the first of April,
  as one month's file can hold it; five bookings of the first guide on five days; and an
  availability record with a slot and no date.
\<close>

definition ex_overbooked :: "availability list" where
  "ex_overbooked =
     map (\<lambda>d. \<lparr>av_GuideID = Some 1, AvailabilityDate = Some (2025, 3, d),
                GuideAvailability = Some ''9-12''\<rparr>) [1..31]
     @ [\<lparr>av_GuideID = Some 1, AvailabilityDate = Some (2025, 4, 1),
         GuideAvailability = Some ''9-12''\<rparr>]"

definition ex_busy :: "booking list" where
  "ex_busy =
     map (\<lambda>d. \<lparr>BookingID = d, bk_TourID = Some 1, bk_GuideID = Some 1,
                BookingDate = Some (2025, 3, d)\<rparr>) [1..5]"

definition ex_undated :: "availability list" where
  "ex_undated =
     [\<lparr>av_GuideID = Some 1, AvailabilityDate = None, GuideAvailability = Some ''9-12''\<rparr>]"

text \<open>
  A tours table in which the id 1 occurs twice, and two bookings: one of tour 1, one of a
  tour that does not exist.
\<close>

definition ex_tours_dup :: "tour list" where
  "ex_tours_dup =
     [\<lparr>tour_id = Some 1, TourName = ''Ta'', TourLocation = ''Madrid'',
       TimeStart = ''09:00'', TimeEnd = ''11:00'',
       Op_Monday = Some 1, Op_Tuesday = Some 0, Op_Wednesday = Some 0, Op_Thursday = Some 0,
       Op_Friday = Some 0, Op_Saturday = Some 0, Op_Sunday = Some 0\<rparr>,
      \<lparr>tour_id = Some 1, TourName = ''Tb'', TourLocation = ''Madrid'',
       TimeStart = ''15:00'', TimeEnd = ''17:00'',
       Op_Monday = Some 1, Op_Tuesday = Some 0, Op_Wednesday = Some 0, Op_Thursday = Some 0,
       Op_Friday = Some 0, Op_Saturday = Some 0, Op_Sunday = Some 0\<rparr>]"

definition ex_bookings_dup :: "booking list" where
  "ex_bookings_dup =
     [\<lparr>BookingID = 1, bk_TourID = Some 1, bk_GuideID = Some 1, BookingDate = Some (2025, 3, 1)\<rparr>,
      \<lparr>BookingID = 2, bk_TourID = Some 99, bk_GuideID = Some 1, BookingDate = Some (2025, 3, 2)\<rparr>]"

section \<open>Properties\<close>

subsection \<open>Weekly operating-day count\<close>

lemma bit_bounds: "b = 0 \<or> b = (1::int) \<Longrightarrow> 0 \<le> b \<and> b \<le> 1"
  by auto

text \<open>
  C9. For a tour whose seven flags \<open>Op_Monday\<close> .. \<open>Op_Sunday\<close> are each 0 or 1, the
  computed weekly operating-day count is the sum of the seven flags and lies between 0
  and 7.  Every month computes the column by the same expression.
\<close>

theorem operating_days_sum_range:
  assumes "Op_Monday t = Some b1" "Op_Tuesday t = Some b2" "Op_Wednesday t = Some b3"
    "Op_Thursday t = Some b4" "Op_Friday t = Some b5" "Op_Saturday t = Some b6"
    "Op_Sunday t = Some b7"
    and "b1 = 0 \<or> b1 = 1" "b2 = 0 \<or> b2 = 1" "b3 = 0 \<or> b3 = 1" "b4 = 0 \<or> b4 = 1"
      "b5 = 0 \<or> b5 = 1" "b6 = 0 \<or> b6 = 1" "b7 = 0 \<or> b7 = 1"
  shows "Tours_Operating_Days t = b1 + b2 + b3 + b4 + b5 + b6 + b7
         \<and> 0 \<le> Tours_Operating_Days t \<and> Tours_Operating_Days t \<le> 7"
proof -
  have eq: "Tours_Operating_Days t = b1 + b2 + b3 + b4 + b5 + b6 + b7"
    using assms(1-7) by (simp add: Tours_Operating_Days_def week_cols_def sum_axis1_def)
  note bs = assms(8-14)[THEN bit_bounds]
  from eq bs show ?thesis by linarith
qed

theorem operating_days_sum_range_witness:
  "Tours_Operating_Days
     \<lparr>tour_id = Some 1, TourName = ''City Walk'', TourLocation = ''Madrid'',
      TimeStart = ''09:00'', TimeEnd = ''11:00'',
      Op_Monday = Some 1, Op_Tuesday = Some 0, Op_Wednesday = Some 1, Op_Thursday = Some 0,
      Op_Friday = Some 1, Op_Saturday = Some 1, Op_Sunday = Some 0\<rparr> = 4"
  using operating_days_sum_range
    [of "\<lparr>tour_id = Some 1, TourName = ''City Walk'', TourLocation = ''Madrid'',
      TimeStart = ''09:00'', TimeEnd = ''11:00'',
      Op_Monday = Some 1, Op_Tuesday = Some 0, Op_Wednesday = Some 1, Op_Thursday = Some 0,
      Op_Friday = Some 1, Op_Saturday = Some 1, Op_Sunday = Some 0\<rparr>" 1 0 1 0 1 1 0]
  by simp

subsection \<open>The left join\<close>

lemma merge_left_set:
  "set (merge_left lk rk L R) =
     {(l, Some r) | l r. l \<in> set L \<and> r \<in> set R \<and> rk r = lk l}
     \<union> {(l, None) | l. l \<in> set L \<and> lk l \<notin> rk ` set R}"
proof -
  have row: "set (case filter (\<lambda>r. rk r = lk l) R of [] \<Rightarrow> [(l, None)] | ms \<Rightarrow> map (\<lambda>r. (l, Some r)) ms)
      = {(l, Some r) | r. r \<in> set R \<and> rk r = lk l} \<union> {(l, None) | u::unit. lk l \<notin> rk ` set R}" for l
  proof (cases "filter (\<lambda>r. rk r = lk l) R")
    case Nil
    then have "\<forall>r \<in> set R. rk r \<noteq> lk l" by (simp add: filter_empty_conv)
    with Nil show ?thesis by auto
  next
    case (Cons m ms)
    then have "m \<in> set (filter (\<lambda>r. rk r = lk l) R)" by simp
    then have "lk l \<in> rk ` set R" by force
    moreover have "set (m # ms) = {r \<in> set R. rk r = lk l}" using Cons[symmetric] by simp
    ultimately show ?thesis using Cons by (simp only: list.case) auto
  qed
  show ?thesis
    unfolding merge_left_def set_concat set_map image_image row by auto
qed

lemma merge_left_fst: "fst ` set (merge_left lk rk L R) = set L"
proof
  show "fst ` set (merge_left lk rk L R) \<subseteq> set L"
    unfolding merge_left_set by auto
  show "set L \<subseteq> fst ` set (merge_left lk rk L R)"
  proof
    fix l assume l: "l \<in> set L"
    show "l \<in> fst ` set (merge_left lk rk L R)"
    proof (cases "lk l \<in> rk ` set R")
      case True
      then obtain r where "r \<in> set R" "rk r = lk l" by auto
      with l have "(l, Some r) \<in> set (merge_left lk rk L R)" unfolding merge_left_set by blast
      then show ?thesis by (rule rev_image_eqI) simp
    next
      case False
      with l have "(l, None) \<in> set (merge_left lk rk L R)" unfolding merge_left_set by blast
      then show ?thesis by (rule rev_image_eqI) simp
    qed
  qed
qed

lemma merge_left_length_ge: "length L \<le> length (merge_left lk rk L R)"
proof (induction L)
  case Nil then show ?case by (simp add: merge_left_def)
next
  case (Cons l L)
  have "1 \<le> length (case filter (\<lambda>r. rk r = lk l) R of [] \<Rightarrow> [(l, None)] | ms \<Rightarrow> map (\<lambda>r. (l, Some r)) ms)"
    by (simp split: list.split)
  with Cons show ?case by (simp add: merge_left_def)
qed

lemma filter_key_distinct:
  "distinct (map rk R) \<Longrightarrow> length (filter (\<lambda>r. rk r = k) R) \<le> 1"
  by (induction R) (auto simp: filter_empty_conv image_iff)

lemma merge_left_distinct_keys:
  assumes "distinct (map rk R)"
  shows "map fst (merge_left lk rk L R) = L"
proof (induction L)
  case Nil then show ?case by (simp add: merge_left_def)
next
  case (Cons l L)
  have "length (filter (\<lambda>r. rk r = lk l) R) \<le> 1" using assms by (rule filter_key_distinct)
  then have "map fst (case filter (\<lambda>r. rk r = lk l) R of [] \<Rightarrow> [(l, None)] | ms \<Rightarrow> map (\<lambda>r. (l, Some r)) ms) = [l]"
    by (cases "filter (\<lambda>r. rk r = lk l) R") auto
  with Cons show ?case by (simp add: merge_left_def)
qed

lemma merge_left_Nil [simp]: "merge_left lk rk [] R = []"
  by (simp add: merge_left_def)

lemma merge_left_Cons:
  "merge_left lk rk (l # L) R =
    (case filter (\<lambda>r. rk r = lk l) R of [] \<Rightarrow> [(l, None)] | ms \<Rightarrow> map (\<lambda>r. (l, Some r)) ms) @ merge_left lk rk L R"
  by (simp add: merge_left_def)

subsection \<open>Bookings joined with tours and guides\<close>

lemma bookings_tours_set:
  "set (bookings_tours bookings tours) =
     {(b, Some t) | b t. b \<in> set bookings \<and> t \<in> set tours \<and> tour_id t = bk_TourID b}
     \<union> {(b, None) | b. b \<in> set bookings \<and> bk_TourID b \<notin> tour_id ` set tours}"
  unfolding bookings_tours_def by (rule merge_left_set)

lemma bookings_merged_set:
  "set (bookings_merged bookings tours guides) =
     {(bt, Some g) | bt g. bt \<in> set (bookings_tours bookings tours) \<and> g \<in> set guides
                          \<and> guide_id g = bk_GuideID (fst bt)}
     \<union> {(bt, None) | bt. bt \<in> set (bookings_tours bookings tours)
                          \<and> bk_GuideID (fst bt) \<notin> guide_id ` set guides}"
  unfolding bookings_merged_def by (rule merge_left_set)

lemma bookings_merged_bookings:
  "(fst \<circ> fst) ` set (bookings_merged bookings tours guides) = set bookings"
proof -
  have "fst ` set (bookings_merged bookings tours guides) = set (bookings_tours bookings tours)"
    unfolding bookings_merged_def by (rule merge_left_fst)
  moreover have "fst ` set (bookings_tours bookings tours) = set bookings"
    unfolding bookings_tours_def by (rule merge_left_fst)
  moreover have "(fst \<circ> fst) ` set (bookings_merged bookings tours guides)
      = fst ` fst ` set (bookings_merged bookings tours guides)"
    by (simp add: image_comp)
  ultimately show ?thesis by simp
qed

lemma bookings_merged_row:
  assumes "r \<in> set (bookings_merged bookings tours guides)"
  shows "fst (fst r) \<in> set bookings"
    and "snd (fst r) = None \<longleftrightarrow> bk_TourID (fst (fst r)) \<notin> tour_id ` set tours"
    and "snd r = None \<longleftrightarrow> bk_GuideID (fst (fst r)) \<notin> guide_id ` set guides"
    and "snd (fst r) = Some t \<Longrightarrow> t \<in> set tours \<and> tour_id t = bk_TourID (fst (fst r))"
    and "snd r = Some g \<Longrightarrow> g \<in> set guides \<and> guide_id g = bk_GuideID (fst (fst r))"
proof -
  obtain b ot og where r: "r = ((b, ot), og)" by (metis prod.collapse)
  from assms have bt: "(b, ot) \<in> set (bookings_tours bookings tours)"
    and g: "(og = None \<and> bk_GuideID b \<notin> guide_id ` set guides)
          \<or> (\<exists>g. og = Some g \<and> g \<in> set guides \<and> guide_id g = bk_GuideID b)"
    unfolding bookings_merged_set r by auto
  from bt have b: "b \<in> set bookings"
    and t: "(ot = None \<and> bk_TourID b \<notin> tour_id ` set tours)
          \<or> (\<exists>t. ot = Some t \<and> t \<in> set tours \<and> tour_id t = bk_TourID b)"
    unfolding bookings_tours_set by auto
  show "fst (fst r) \<in> set bookings" using b r by simp
  show "snd (fst r) = None \<longleftrightarrow> bk_TourID (fst (fst r)) \<notin> tour_id ` set tours"
    using t r by (auto simp: image_iff)
  show "snd r = None \<longleftrightarrow> bk_GuideID (fst (fst r)) \<notin> guide_id ` set guides"
    using g r by (auto simp: image_iff)
  show "snd (fst r) = Some t \<Longrightarrow> t \<in> set tours \<and> tour_id t = bk_TourID (fst (fst r))"
    using t r by auto
  show "snd r = Some g \<Longrightarrow> g \<in> set guides \<and> guide_id g = bk_GuideID (fst (fst r))"
    using g r by auto
qed

lemma bookings_merged_length_ge:
  "length bookings \<le> length (bookings_merged bookings tours guides)"
proof -
  have "length bookings \<le> length (bookings_tours bookings tours)"
    unfolding bookings_tours_def by (rule merge_left_length_ge)
  also have "\<dots> \<le> length (bookings_merged bookings tours guides)"
    unfolding bookings_merged_def by (rule merge_left_length_ge)
  finally show ?thesis .
qed

lemma bookings_tours_unique_ids:
  "distinct (map tour_id tours) \<Longrightarrow> map fst (bookings_tours bookings tours) = bookings"
  unfolding bookings_tours_def by (rule merge_left_distinct_keys)

lemma bookings_merged_unique_ids:
  assumes "distinct (map tour_id tours)" "distinct (map guide_id guides)"
  shows "map (fst \<circ> fst) (bookings_merged bookings tours guides) = bookings"
proof -
  have "map fst (bookings_merged bookings tours guides) = bookings_tours bookings tours"
    unfolding bookings_merged_def using assms(2) by (rule merge_left_distinct_keys)
  then have "map fst (map fst (bookings_merged bookings tours guides)) = bookings"
    using bookings_tours_unique_ids[OF assms(1)] by simp
  then show ?thesis by simp
qed

lemma merge_columns_length: "length (merge_columns l r) = length l + length r"
  by (simp add: merge_columns_def)

lemma bookings_merged_columns_length:
  "length (bookings_merged_columns bc tc gc) = length bc + length tc + length gc"
  by (simp add: bookings_merged_columns_def Let_def rename_def merge_columns_length)

lemma bookings_merged_columns_ids:
  assumes nob: "''id'' \<notin> set bc"
    and i: "i < length tc" "tc ! i = ''id''"
    and j: "j < length gc" "gc ! j = ''id''"
  shows "bookings_merged_columns bc tc gc ! (length bc + i) = ''TourID_Source''"
    and "bookings_merged_columns bc tc gc ! (length bc + length tc + j) = ''GuideID_Source''"
proof -
  define c1 where "c1 = merge_columns bc tc"
  define c2 where "c2 = merge_columns c1 gc"
  have len1: "length c1 = length bc + length tc" by (simp add: c1_def merge_columns_length)
  have len2: "length c2 = length c1 + length gc" by (simp add: c2_def merge_columns_length)
  have idg: "''id'' \<in> set gc" using j by (metis nth_mem)
  have c1i: "c1 ! (length bc + i) = ''id''"
    using i nob by (simp add: c1_def merge_columns_def nth_append)
  have id1: "''id'' \<in> set c1"
    using c1i len1 i(1) by (metis add_less_cancel_left nth_mem)
  have c2i: "c2 ! (length bc + i) = ''id_x''"
    using c1i idg len1 i(1) by (simp add: c2_def merge_columns_def nth_append)
  have c2j: "c2 ! (length c1 + j) = ''id_y''"
    using j id1 by (simp add: c2_def merge_columns_def nth_append)
  have inx: "''id_x'' \<in> set c2"
    using c2i len1 len2 i(1) by (metis add_less_cancel_left nth_mem trans_less_add1)
  have iny: "''id_y'' \<in> set c2"
    using c2j len2 j(1) by (metis add_less_cancel_left nth_mem)
  have rc: "rename_cols c2 = [(''id_x'', ''TourID_Source''), (''id_y'', ''GuideID_Source'')]"
    using inx iny by (simp add: rename_cols_def)
  have res: "bookings_merged_columns bc tc gc = rename (rename_cols c2) c2"
    unfolding bookings_merged_columns_def Let_def c1_def[symmetric] c2_def[symmetric]
    by (simp add: rc)
  show "bookings_merged_columns bc tc gc ! (length bc + i) = ''TourID_Source''"
    using c2i len1 len2 i(1) by (simp add: res rc rename_def)
  show "bookings_merged_columns bc tc gc ! (length bc + length tc + j) = ''GuideID_Source''"
    using c2j len1 len2 j(1) by (simp add: res rc rename_def)
qed

text \<open>
  C7. The join of bookings with tours and guides keeps every booking row: the bookings
  of the joined table are exactly the input bookings, none is lost, and with unique
  tour and guide ids the joined table has the input bookings row for row.  A booking
  whose TourID (GuideID) matches no tour (guide) row carries a missing tour (guide)
  part, and only such a booking does.  No column is dropped: the joined table has all
  the columns of the three tables, and when the bookings table has no column
  \<^verbatim>\<open>id\<close>, the colliding \<^verbatim>\<open>id\<close> column of the tours is named
  \<^verbatim>\<open>TourID_Source\<close> and the one of the guides \<^verbatim>\<open>GuideID_Source\<close>.
\<close>

theorem bookings_join_preserves_rows:
  "(fst \<circ> fst) ` set (bookings_merged bookings tours guides) = set bookings
   \<and> length bookings \<le> length (bookings_merged bookings tours guides)
   \<and> (\<forall>r \<in> set (bookings_merged bookings tours guides).
         (snd (fst r) = None \<longleftrightarrow> bk_TourID (fst (fst r)) \<notin> tour_id ` set tours)
       \<and> (snd r = None \<longleftrightarrow> bk_GuideID (fst (fst r)) \<notin> guide_id ` set guides))
   \<and> (distinct (map tour_id tours) \<and> distinct (map guide_id guides)
        \<longrightarrow> map (fst \<circ> fst) (bookings_merged bookings tours guides) = bookings)
   \<and> length (bookings_merged_columns bc tc gc) = length bc + length tc + length gc
   \<and> (''id'' \<notin> set bc \<and> i < length tc \<and> tc ! i = ''id'' \<and> j < length gc \<and> gc ! j = ''id''
        \<longrightarrow> bookings_merged_columns bc tc gc ! (length bc + i) = ''TourID_Source''
          \<and> bookings_merged_columns bc tc gc ! (length bc + length tc + j) = ''GuideID_Source'')"
  using bookings_merged_bookings[of bookings tours guides]
    bookings_merged_length_ge[of bookings tours guides]
    bookings_merged_row(2,3)[of _ bookings tours guides]
    bookings_merged_unique_ids[of tours guides bookings]
    bookings_merged_columns_length[of bc tc gc]
    bookings_merged_columns_ids[of bc i tc j gc]
  by blast

theorem bookings_join_preserves_rows_witness:
  "map (fst \<circ> fst)
     (bookings_merged
        [\<lparr>BookingID = 1, bk_TourID = Some 1, bk_GuideID = Some 1, BookingDate = Some (2025, 3, 1)\<rparr>,
         \<lparr>BookingID = 2, bk_TourID = Some 9, bk_GuideID = Some 8, BookingDate = Some (2025, 3, 2)\<rparr>]
        [\<lparr>tour_id = Some 1, TourName = ''T1'', TourLocation = ''Madrid'',
          TimeStart = ''09:00'', TimeEnd = ''11:00'',
          Op_Monday = Some 1, Op_Tuesday = Some 0, Op_Wednesday = Some 1, Op_Thursday = Some 0,
          Op_Friday = Some 1, Op_Saturday = Some 1, Op_Sunday = Some 0\<rparr>]
        [\<lparr>guide_id = Some 1, GuideName = ''G1'', GuideLocation = ''Madrid''\<rparr>])
   = [\<lparr>BookingID = 1, bk_TourID = Some 1, bk_GuideID = Some 1, BookingDate = Some (2025, 3, 1)\<rparr>,
      \<lparr>BookingID = 2, bk_TourID = Some 9, bk_GuideID = Some 8, BookingDate = Some (2025, 3, 2)\<rparr>]
   \<and> bookings_merged_columns [''BookingID'', ''TourID'', ''GuideID'', ''BookingDate'']
        [''id'', ''TourName''] [''id'', ''GuideName''] ! 4 = ''TourID_Source''
   \<and> bookings_merged_columns [''BookingID'', ''TourID'', ''GuideID'', ''BookingDate'']
        [''id'', ''TourName''] [''id'', ''GuideName''] ! 6 = ''GuideID_Source''"
  using bookings_join_preserves_rows
    [where bookings = "[\<lparr>BookingID = 1, bk_TourID = Some 1, bk_GuideID = Some 1, BookingDate = Some (2025, 3, 1)\<rparr>,
         \<lparr>BookingID = 2, bk_TourID = Some 9, bk_GuideID = Some 8, BookingDate = Some (2025, 3, 2)\<rparr>]"
       and tours = "[\<lparr>tour_id = Some 1, TourName = ''T1'', TourLocation = ''Madrid'',
          TimeStart = ''09:00'', TimeEnd = ''11:00'',
          Op_Monday = Some 1, Op_Tuesday = Some 0, Op_Wednesday = Some 1, Op_Thursday = Some 0,
          Op_Friday = Some 1, Op_Saturday = Some 1, Op_Sunday = Some 0\<rparr>]"
       and guides = "[\<lparr>guide_id = Some 1, GuideName = ''G1'', GuideLocation = ''Madrid''\<rparr>]"
       and bc = "[''BookingID'', ''TourID'', ''GuideID'', ''BookingDate'']"
       and tc = "[''id'', ''TourName'']" and gc = "[''id'', ''GuideName'']" and i = 0 and j = 0]
  by (simp add: eval_nat_numeral)

subsection \<open>Guides joined with availability\<close>

lemma availability_days_guides_set:
  "set (availability_days_guides guides availability) =
     {(g, Some a) | g a. g \<in> set guides \<and> a \<in> set availability \<and> av_GuideID a = guide_id g}
     \<union> {(g, None) | g. g \<in> set guides \<and> guide_id g \<notin> av_GuideID ` set availability}"
  unfolding availability_days_guides_def by (rule merge_left_set)

text \<open>
  C3, as the code has it.  The join is \<^verbatim>\<open>guides.merge(availability, how="left")\<close>:
  the guides are the left table.  Every guide row is kept, a guide without any
  availability record appearing once with the availability fields missing; an
  availability record appears in the join exactly when its GuideID matches a guide row.
\<close>

theorem availability_join_keeps_guides:
  "fst ` set (availability_days_guides guides availability) = set guides
   \<and> (\<forall>g. (g, None) \<in> set (availability_days_guides guides availability)
          \<longleftrightarrow> g \<in> set guides \<and> guide_id g \<notin> av_GuideID ` set availability)
   \<and> (\<forall>a. (\<exists>g. (g, Some a) \<in> set (availability_days_guides guides availability))
          \<longleftrightarrow> a \<in> set availability \<and> av_GuideID a \<in> guide_id ` set guides)"
proof (intro conjI allI)
  show "fst ` set (availability_days_guides guides availability) = set guides"
    unfolding availability_days_guides_def by (rule merge_left_fst)
  show "(g, None) \<in> set (availability_days_guides guides availability)
          \<longleftrightarrow> g \<in> set guides \<and> guide_id g \<notin> av_GuideID ` set availability" for g
    unfolding availability_days_guides_set by auto
  show "(\<exists>g. (g, Some a) \<in> set (availability_days_guides guides availability))
          \<longleftrightarrow> a \<in> set availability \<and> av_GuideID a \<in> guide_id ` set guides" for a
    unfolding availability_days_guides_set by auto
qed

theorem availability_join_keeps_guides_witness:
  "(\<lparr>guide_id = Some 2, GuideName = ''G2'', GuideLocation = ''Madrid''\<rparr>, None)
     \<in> set (availability_days_guides
         [\<lparr>guide_id = Some 1, GuideName = ''G1'', GuideLocation = ''Madrid''\<rparr>,
          \<lparr>guide_id = Some 2, GuideName = ''G2'', GuideLocation = ''Madrid''\<rparr>]
         [\<lparr>av_GuideID = Some 1, AvailabilityDate = Some (2025, 3, 1), GuideAvailability = Some ''9-12''\<rparr>,
          \<lparr>av_GuideID = Some 7, AvailabilityDate = Some (2025, 3, 2), GuideAvailability = Some ''9-12''\<rparr>])
   \<and> (\<exists>g. (g, Some \<lparr>av_GuideID = Some 1, AvailabilityDate = Some (2025, 3, 1),
                      GuideAvailability = Some ''9-12''\<rparr>)
     \<in> set (availability_days_guides
         [\<lparr>guide_id = Some 1, GuideName = ''G1'', GuideLocation = ''Madrid''\<rparr>,
          \<lparr>guide_id = Some 2, GuideName = ''G2'', GuideLocation = ''Madrid''\<rparr>]
         [\<lparr>av_GuideID = Some 1, AvailabilityDate = Some (2025, 3, 1), GuideAvailability = Some ''9-12''\<rparr>,
          \<lparr>av_GuideID = Some 7, AvailabilityDate = Some (2025, 3, 2), GuideAvailability = Some ''9-12''\<rparr>]))
   \<and> \<not> (\<exists>g. (g, Some \<lparr>av_GuideID = Some 7, AvailabilityDate = Some (2025, 3, 2),
                      GuideAvailability = Some ''9-12''\<rparr>)
     \<in> set (availability_days_guides
         [\<lparr>guide_id = Some 1, GuideName = ''G1'', GuideLocation = ''Madrid''\<rparr>,
          \<lparr>guide_id = Some 2, GuideName = ''G2'', GuideLocation = ''Madrid''\<rparr>]
         [\<lparr>av_GuideID = Some 1, AvailabilityDate = Some (2025, 3, 1), GuideAvailability = Some ''9-12''\<rparr>,
          \<lparr>av_GuideID = Some 7, AvailabilityDate = Some (2025, 3, 2), GuideAvailability = Some ''9-12''\<rparr>]))"
  using availability_join_keeps_guides
    [of "[\<lparr>guide_id = Some 1, GuideName = ''G1'', GuideLocation = ''Madrid''\<rparr>,
          \<lparr>guide_id = Some 2, GuideName = ''G2'', GuideLocation = ''Madrid''\<rparr>]"
        "[\<lparr>av_GuideID = Some 1, AvailabilityDate = Some (2025, 3, 1), GuideAvailability = Some ''9-12''\<rparr>,
          \<lparr>av_GuideID = Some 7, AvailabilityDate = Some (2025, 3, 2), GuideAvailability = Some ''9-12''\<rparr>]"]
  by simp

text \<open>
  An availability record whose GuideID matches no guide is not in the join: the only
  row is the guide with missing availability fields.
\<close>

theorem availability_join_drops_orphan_record:
  "availability_days_guides
     [\<lparr>guide_id = Some 1, GuideName = ''G1'', GuideLocation = ''Madrid''\<rparr>]
     [\<lparr>av_GuideID = Some 7, AvailabilityDate = Some (2025, 3, 2), GuideAvailability = Some ''9-12''\<rparr>]
   = [(\<lparr>guide_id = Some 1, GuideName = ''G1'', GuideLocation = ''Madrid''\<rparr>, None)]"
  by (simp add: availability_days_guides_def merge_left_def)

subsection \<open>Columns, first rows of a key and the descending sort\<close>

lemma set_dropna: "set (dropna cs) = {v. Some v \<in> set cs}"
  by (induction cs rule: dropna.induct) auto

lemma count_list_dropna: "count_list (dropna cs) v = count_list cs (Some v)"
  by (induction cs rule: dropna.induct) auto

lemma length_dropna_le: "length (dropna cs) \<le> length cs"
  by (induction cs rule: dropna.induct) auto

lemma length_dropna_less: "None \<in> set cs \<Longrightarrow> length (dropna cs) < length cs"
proof (induction cs rule: dropna.induct)
  case (2 cs)
  have "length (dropna cs) \<le> length cs" by (rule length_dropna_le)
  then show ?case by simp
qed auto

lemma keep_first_not_seen_all: "\<forall>x \<in> set (keep_first key seen xs). key x \<notin> set seen"
proof (induction xs arbitrary: seen)
  case Nil
  then show ?case by simp
next
  case (Cons y ys)
  show ?case
  proof (cases "key y \<in> set seen")
    case True
    then show ?thesis using Cons[of seen] by simp
  next
    case False
    then show ?thesis using Cons[of "key y # seen"] by simp
  qed
qed

lemma keep_first_not_seen: "x \<in> set (keep_first key seen xs) \<Longrightarrow> key x \<notin> set seen"
  using keep_first_not_seen_all[of key seen xs] by auto

lemma keep_first_subset: "set (keep_first key seen xs) \<subseteq> set xs"
  by (induction xs arbitrary: seen) auto

lemma keep_first_keys: "key ` set (keep_first key seen xs) = key ` set xs - set seen"
  by (induction xs arbitrary: seen) auto

lemma keep_first_distinct: "distinct (map key (keep_first key seen xs))"
proof (induction xs arbitrary: seen)
  case (Cons x xs)
  have "key x \<notin> key ` set (keep_first key (key x # seen) xs)"
    using keep_first_not_seen_all[of key "key x # seen" xs] by auto
  with Cons show ?case by simp
qed simp

lemma set_unique: "set (unique xs) = set xs"
  using keep_first_keys[of "\<lambda>v. v" "[]" xs] by (simp add: unique_def)

lemma distinct_unique: "distinct (unique xs)"
  using keep_first_distinct[of "\<lambda>v. v" "[]" xs] by (simp add: unique_def)

text \<open>What every kernel gives: the rows are permuted, and the sort column descends.\<close>

lemma sorts_descendingD:
  assumes "sorts_descending nargsort"
  shows "distinct (nargsort keys)" and "set (nargsort keys) = {0..<length keys}"
    and "sorted (rev (map (\<lambda>i. keys ! i) (nargsort keys)))"
  using assms unfolding sorts_descending_def by blast+

lemma mset_sort_values_desc:
  assumes "sorts_descending nargsort"
  shows "mset (sort_values_desc nargsort col rows) = mset rows"
proof -
  let ?p = "nargsort (map col rows)"
  have "distinct ?p" "set ?p = {0..<length rows}"
    using sorts_descendingD(1,2)[OF assms, of "map col rows"] by simp_all
  then have "mset ?p = mset [0..<length rows]"
    by (metis distinct_upt set_eq_iff_mset_eq_distinct set_upt)
  then have "mset (map (\<lambda>i. rows ! i) ?p) = mset (map (\<lambda>i. rows ! i) [0..<length rows])"
    by (metis mset_map)
  then show ?thesis by (simp add: sort_values_desc_def map_nth)
qed

lemma set_sort_values_desc:
  "sorts_descending nargsort \<Longrightarrow> set (sort_values_desc nargsort col rows) = set rows"
  by (rule mset_eq_setD) (rule mset_sort_values_desc)

lemma length_sort_values_desc:
  "sorts_descending nargsort \<Longrightarrow> length (sort_values_desc nargsort col rows) = length rows"
  by (rule mset_eq_length) (rule mset_sort_values_desc)

lemma sorted_sort_values_desc:
  assumes "sorts_descending nargsort"
  shows "sorted_wrt (\<lambda>a b. col b \<le> col a) (sort_values_desc nargsort col rows)"
proof -
  let ?keys = "map col rows"
  let ?p = "nargsort ?keys"
  have in_range: "\<forall>i \<in> set ?p. i < length rows"
    using sorts_descendingD(2)[OF assms, of ?keys] by simp
  then have "map (\<lambda>i. ?keys ! i) ?p = map col (map (\<lambda>i. rows ! i) ?p)"
    by simp
  with sorts_descendingD(3)[OF assms, of ?keys]
  have "sorted (rev (map col (sort_values_desc nargsort col rows)))"
    by (simp add: sort_values_desc_def)
  then show ?thesis
    by (simp add: sorted_wrt_rev sorted_wrt_map rev_map[symmetric] del: rev_map)
qed

lemma sum_list_sort_values_desc:
  fixes g :: "'a \<Rightarrow> int"
  assumes "sorts_descending nargsort"
  shows "sum_list (map g (sort_values_desc nargsort col rows)) = sum_list (map g rows)"
proof -
  have "mset (map g (sort_values_desc nargsort col rows)) = mset (map g rows)"
    using mset_sort_values_desc[OF assms, of col rows] by (metis mset_map)
  then show ?thesis by (metis sum_mset_sum_list)
qed

lemma distinct_map_sort_values_desc:
  assumes "sorts_descending nargsort"
  shows "distinct (map g (sort_values_desc nargsort col rows)) \<longleftrightarrow> distinct (map g rows)"
proof -
  have "mset (map g (sort_values_desc nargsort col rows)) = mset (map g rows)"
    using mset_sort_values_desc[OF assms, of col rows] by (metis mset_map)
  then show ?thesis by (rule mset_eq_imp_distinct_iff)
qed

text \<open>The two kernels of the file sort in descending order.\<close>

lemma argsort_pairs:
  assumes "mset ps = mset (zip keys [0..<length keys])"
  shows "distinct (map snd (sort_key fst ps))"
    and "set (map snd (sort_key fst ps)) = {0..<length keys}"
    and "sorted (map (\<lambda>i. keys ! i) (map snd (sort_key fst ps)))"
proof -
  let ?s = "sort_key fst ps"
  have ms: "mset ?s = mset (zip keys [0..<length keys])" using assms by simp
  then have "mset (map snd ?s) = mset (map snd (zip keys [0..<length keys]))"
    by (metis mset_map)
  then have idx: "mset (map snd ?s) = mset [0..<length keys]" by simp
  have "distinct (map snd ?s) \<longleftrightarrow> distinct [0..<length keys]"
    using idx by (rule mset_eq_imp_distinct_iff)
  then show "distinct (map snd ?s)" by simp
  have "set (map snd ?s) = set [0..<length keys]" using idx by (rule mset_eq_setD)
  then show "set (map snd ?s) = {0..<length keys}" by simp
  have "set ?s = set (zip keys [0..<length keys])" using ms by (rule mset_eq_setD)
  then have "\<forall>p \<in> set ?s. keys ! snd p = fst p"
    by (auto simp: in_set_zip)
  then have "map (\<lambda>i. keys ! i) (map snd ?s) = map fst ?s" by simp
  moreover have "sorted (map fst ?s)" by (rule sorted_sort_key)
  ultimately show "sorted (map (\<lambda>i. keys ! i) (map snd ?s))" by (simp only:)
qed

lemma nargsort_stable_sorts: "sorts_descending nargsort_stable"
  unfolding sorts_descending_def nargsort_stable_def
proof (intro allI conjI)
  fix keys :: "'a list"
  have m: "mset (rev (zip keys [0..<length keys])) = mset (zip keys [0..<length keys])" by simp
  note a = argsort_pairs[OF m]
  show "distinct (rev (map snd (sort_key fst (rev (zip keys [0..<length keys])))))"
    using a(1) by simp
  show "set (rev (map snd (sort_key fst (rev (zip keys [0..<length keys]))))) = {0..<length keys}"
    using a(2) by simp
  show "sorted (rev (map (\<lambda>i. keys ! i)
          (rev (map snd (sort_key fst (rev (zip keys [0..<length keys])))))))"
    using a(3) by (simp add: rev_map[symmetric] del: rev_map)
qed

lemma nargsort_reversed_sorts: "sorts_descending nargsort_reversed"
  unfolding sorts_descending_def nargsort_reversed_def
proof (intro allI conjI)
  fix keys :: "'a list"
  note a = argsort_pairs[OF refl, of keys]
  show "distinct (rev (map snd (sort_key fst (zip keys [0..<length keys]))))"
    using a(1) by simp
  show "set (rev (map snd (sort_key fst (zip keys [0..<length keys])))) = {0..<length keys}"
    using a(2) by simp
  show "sorted (rev (map (\<lambda>i. keys ! i)
          (rev (map snd (sort_key fst (zip keys [0..<length keys]))))))"
    using a(3) by (simp add: rev_map[symmetric] del: rev_map)
qed

subsection \<open>Counting the values of a column\<close>

lemma value_counts_set:
  assumes "sorts_descending nargsort"
  shows "set (value_counts nargsort col)
     = (\<lambda>k. (k, int (count_list col (Some k)))) ` {k. Some k \<in> set col}"
  by (simp add: value_counts_def Let_def set_sort_values_desc[OF assms] set_unique set_dropna
      count_list_dropna)

lemma value_counts_row:
  assumes "sorts_descending nargsort" and "r \<in> set (value_counts nargsort col)"
  shows "Some (fst r) \<in> set col" and "snd r = int (count_list col (Some (fst r)))"
    and "0 < snd r"
proof -
  from assms(2) obtain k where k: "Some k \<in> set col" "r = (k, int (count_list col (Some k)))"
    unfolding value_counts_set[OF assms(1)] by auto
  show "Some (fst r) \<in> set col" using k by simp
  show "snd r = int (count_list col (Some (fst r)))" using k by simp
  have "count_list col (Some k) \<noteq> 0" using k(1) by (simp add: count_list_0_iff)
  then show "0 < snd r" using k(2) by simp
qed

lemma value_counts_names:
  assumes "sorts_descending nargsort"
  shows "fst ` set (value_counts nargsort col) = {k. Some k \<in> set col}"
  unfolding value_counts_set[OF assms] by (simp add: image_image)

lemma value_counts_distinct:
  assumes "sorts_descending nargsort"
  shows "distinct (map fst (value_counts nargsort col))"
proof -
  have "map fst (map (\<lambda>k. (k, int (count_list (dropna col) k))) (unique (dropna col)))
        = unique (dropna col)"
    by (simp add: comp_def)
  then show ?thesis
    by (simp add: value_counts_def Let_def distinct_map_sort_values_desc[OF assms]
        distinct_unique del: map_map)
qed

lemma value_counts_length:
  assumes "sorts_descending nargsort"
  shows "length (value_counts nargsort col) = card {k. Some k \<in> set col}"
proof -
  have "length (value_counts nargsort col) = length (unique (dropna col))"
    by (simp add: value_counts_def Let_def length_sort_values_desc[OF assms])
  also have "\<dots> = card (set (unique (dropna col)))"
    using distinct_unique[of "dropna col"] by (simp add: distinct_card)
  also have "\<dots> = card {k. Some k \<in> set col}" by (simp add: set_unique set_dropna)
  finally show ?thesis .
qed

lemma value_counts_sorted:
  "sorts_descending nargsort \<Longrightarrow> sorted_wrt (\<lambda>a b. snd b \<le> snd a) (value_counts nargsort col)"
  by (simp add: value_counts_def Let_def sorted_sort_values_desc)

lemma value_counts_sum:
  assumes "sorts_descending nargsort"
  shows "sum_list (map snd (value_counts nargsort col)) = int (length (dropna col))"
proof -
  let ?vals = "dropna col"
  have "sum_list (map snd (value_counts nargsort col))
        = sum_list (map (\<lambda>k. int (count_list ?vals k)) (unique ?vals))"
    by (simp add: value_counts_def Let_def sum_list_sort_values_desc[OF assms] comp_def)
  also have "\<dots> = (\<Sum>k\<in>set ?vals. int (count_list ?vals k))"
    using distinct_unique[of ?vals] by (simp add: sum_list_distinct_conv_sum_set set_unique)
  also have "\<dots> = int (\<Sum>k\<in>set ?vals. count_list ?vals k)" by simp
  also have "\<dots> = int (length ?vals)" by (simp add: sum_count_set)
  finally show ?thesis .
qed

lemma head_sum_le:
  fixes g :: "'a \<Rightarrow> int"
  assumes "\<forall>r \<in> set rows. 0 \<le> g r"
  shows "sum_list (map g (head n rows)) \<le> sum_list (map g rows)"
proof -
  have "sum_list (map g rows) = sum_list (map g (take n rows)) + sum_list (map g (drop n rows))"
    by (metis append_take_drop_id map_append sum_list_append)
  moreover have "0 \<le> sum_list (map g (drop n rows))"
  proof (rule sum_list_nonneg)
    fix x assume "x \<in> set (map g (drop n rows))"
    then obtain r where "r \<in> set (drop n rows)" "x = g r" by auto
    then show "0 \<le> x" using assms in_set_dropD[of r n rows] by blast
  qed
  ultimately show ?thesis by (simp add: head_def)
qed

lemma head_value_counts_total:
  assumes "sorts_descending nargsort"
  shows "sum_list (map snd (head n (value_counts nargsort col))) \<le> int (length (dropna col))"
proof -
  have "\<forall>r \<in> set (value_counts nargsort col). 0 \<le> snd r"
    using value_counts_row(3)[OF assms, of _ col] by (auto intro: less_imp_le)
  then have "sum_list (map snd (head n (value_counts nargsort col)))
      \<le> sum_list (map snd (value_counts nargsort col))"
    by (rule head_sum_le)
  then show ?thesis by (simp add: value_counts_sum[OF assms])
qed

lemma head_total_less:
  assumes "sorts_descending nargsort" and "None \<in> set col"
  shows "sum_list (map snd (head n (value_counts nargsort col))) < int (length col)"
  using head_value_counts_total[OF assms(1), of n col] length_dropna_less[OF assms(2)]
  by linarith

text \<open>A row that is not among the first \<open>n\<close> of a descending table is not above them.\<close>

lemma head_highest:
  assumes sorted: "sorted_wrt (\<lambda>a b. col b \<le> col a) rows"
    and names: "distinct (map key rows)"
    and y: "y \<in> set rows" "key y \<notin> key ` set (head n rows)"
    and x: "x \<in> set (head n rows)"
  shows "col y \<le> (col x :: int)"
proof -
  have split: "rows = take n rows @ drop n rows" by simp
  from y have "y \<notin> set (take n rows)" by (auto simp: head_def)
  with y(1) have "y \<in> set (drop n rows)"
    by (metis Un_iff append_take_drop_id set_append)
  moreover from x have "x \<in> set (take n rows)" by (simp add: head_def)
  moreover have "\<forall>a \<in> set (take n rows). \<forall>b \<in> set (drop n rows). col b \<le> col a"
    using sorted by (subst (asm) split) (simp only: sorted_wrt_append, blast)
  ultimately show ?thesis by blast
qed

subsection \<open>Most booked tours\<close>

text \<open>
  C6, as the code has it.  For every bookings table and every \<open>n\<close>, the first \<open>n\<close> rows of
  the tour counts are \<open>n\<close> entries, or all the tour names when there are fewer; the names
  are distinct; each entry is a tour name of the joined bookings with the number of rows
  that carry it; the entries are in descending order of count, and no tour name left
  out has a higher count than one returned.  This holds for every kernel of the sort;
  the order of entries with equal counts is the kernel's.  \<open>top_tours\<close> is the case
  \<open>n = 10\<close>.
\<close>

theorem top_booked_tours:
  assumes "sorts_descending nargsort"
  shows
  "length (head n (value_counts nargsort (map bt_TourName (bookings_tours bookings tours))))
     = min n (card {k. Some k \<in> set (map bt_TourName (bookings_tours bookings tours))})
   \<and> distinct (map fst
        (head n (value_counts nargsort (map bt_TourName (bookings_tours bookings tours)))))
   \<and> (\<forall>r \<in> set (head n (value_counts nargsort
                       (map bt_TourName (bookings_tours bookings tours)))).
         Some (fst r) \<in> set (map bt_TourName (bookings_tours bookings tours))
         \<and> snd r = int (count_list (map bt_TourName (bookings_tours bookings tours))
                                    (Some (fst r)))
         \<and> 0 < snd r)
   \<and> sorted_wrt (\<lambda>a b. snd b \<le> snd a)
        (head n (value_counts nargsort (map bt_TourName (bookings_tours bookings tours))))
   \<and> (\<forall>k r. Some k \<in> set (map bt_TourName (bookings_tours bookings tours))
           \<and> k \<notin> fst ` set (head n (value_counts nargsort
                       (map bt_TourName (bookings_tours bookings tours))))
           \<and> r \<in> set (head n (value_counts nargsort
                       (map bt_TourName (bookings_tours bookings tours))))
         \<longrightarrow> int (count_list (map bt_TourName (bookings_tours bookings tours)) (Some k))
               \<le> snd r)
   \<and> top_tours nargsort (bookings_tours bookings tours)
       = head 10 (value_counts nargsort (map bt_TourName (bookings_tours bookings tours)))"
proof -
  let ?col = "map bt_TourName (bookings_tours bookings tours)"
  let ?vc = "value_counts nargsort ?col"
  have 1: "length (head n ?vc) = min n (card {k. Some k \<in> set ?col})"
    by (simp add: head_def value_counts_length[OF assms] min.commute)
  have "distinct (take n (map fst ?vc))"
    using value_counts_distinct[OF assms, of ?col] by (rule distinct_take)
  then have 2: "distinct (map fst (head n ?vc))" by (simp add: head_def take_map)
  have sub: "set (head n ?vc) \<subseteq> set ?vc" by (simp add: head_def set_take_subset)
  have 3: "\<forall>r \<in> set (head n ?vc). Some (fst r) \<in> set ?col
        \<and> snd r = int (count_list ?col (Some (fst r))) \<and> 0 < snd r"
    using sub value_counts_row[OF assms, of _ ?col] by blast
  have 4: "sorted_wrt (\<lambda>a b. snd b \<le> snd a) (head n ?vc)"
    using value_counts_sorted[OF assms, of ?col] by (simp add: head_def)
  have 5: "\<forall>k r. Some k \<in> set ?col \<and> k \<notin> fst ` set (head n ?vc) \<and> r \<in> set (head n ?vc)
         \<longrightarrow> int (count_list ?col (Some k)) \<le> snd r"
  proof (intro allI impI)
    fix k r
    assume h: "Some k \<in> set ?col \<and> k \<notin> fst ` set (head n ?vc) \<and> r \<in> set (head n ?vc)"
    let ?y = "(k, int (count_list ?col (Some k)))"
    have y: "?y \<in> set ?vc" using h unfolding value_counts_set[OF assms] by blast
    have "snd ?y \<le> snd r"
      using head_highest[OF value_counts_sorted[OF assms, of ?col]
          value_counts_distinct[OF assms, of ?col] y, of n r] h by simp
    then show "int (count_list ?col (Some k)) \<le> snd r" by simp
  qed
  have 6: "top_tours nargsort (bookings_tours bookings tours) = head 10 ?vc"
    by (simp add: top_tours_def)
  from 1 2 3 4 5 6 show ?thesis by blast
qed

theorem top_booked_tours_witness:
  "sorts_descending (nargsort_stable :: int list \<Rightarrow> nat list)
   \<and> top_tours nargsort_stable (bookings_tours ex_bookings ex_tours)
       = [(''T1'', 2), (''T3'', 2), (''T2'', 1)]
   \<and> head 2 (value_counts nargsort_stable (map bt_TourName (bookings_tours ex_bookings ex_tours)))
       = [(''T1'', 2), (''T3'', 2)]
   \<and> length (head 2 (value_counts nargsort_stable
                 (map bt_TourName (bookings_tours ex_bookings ex_tours))))
       = min 2 (card {k. Some k \<in> set (map bt_TourName (bookings_tours ex_bookings ex_tours))})
   \<and> int (count_list (map bt_TourName (bookings_tours ex_bookings ex_tours)) (Some ''T2'')) \<le> 2"
proof -
  have k: "sorts_descending (nargsort_stable :: int list \<Rightarrow> nat list)"
    by (rule nargsort_stable_sorts)
  have a: "top_tours nargsort_stable (bookings_tours ex_bookings ex_tours)
      = [(''T1'', 2), (''T3'', 2), (''T2'', 1)]"
    by code_simp
  have b: "head 2 (value_counts nargsort_stable (map bt_TourName (bookings_tours ex_bookings ex_tours)))
       = [(''T1'', 2), (''T3'', 2)]"
    by code_simp
  have c: "Some ''T2'' \<in> set (map bt_TourName (bookings_tours ex_bookings ex_tours))"
    by code_simp
  note t = top_booked_tours[OF k, of 2 ex_bookings ex_tours]
  from t have len: "length (head 2 (value_counts nargsort_stable
                 (map bt_TourName (bookings_tours ex_bookings ex_tours))))
       = min 2 (card {k. Some k \<in> set (map bt_TourName (bookings_tours ex_bookings ex_tours))})"
    by blast
  from t have "\<And>k r. Some k \<in> set (map bt_TourName (bookings_tours ex_bookings ex_tours))
      \<Longrightarrow> k \<notin> fst ` set (head 2 (value_counts nargsort_stable
                       (map bt_TourName (bookings_tours ex_bookings ex_tours))))
      \<Longrightarrow> r \<in> set (head 2 (value_counts nargsort_stable
                       (map bt_TourName (bookings_tours ex_bookings ex_tours))))
      \<Longrightarrow> int (count_list (map bt_TourName (bookings_tours ex_bookings ex_tours)) (Some k))
               \<le> snd r"
    by blast
  from this[OF c, of "(''T1'', 2)"]
  have "int (count_list (map bt_TourName (bookings_tours ex_bookings ex_tours)) (Some ''T2'')) \<le> 2"
    by (simp add: b)
  with k a b len show ?thesis by (simp only: simp_thms)
qed

text \<open>
  With the kernel that returns equal values in the opposite order, the two tours booked
  twice come out with the later one first: \<open>T3\<close>, whose first booking is the fourth
  row, before \<open>T1\<close>, whose first booking is the second row.
\<close>

theorem top_tours_ties_not_first_appearance:
  "sorts_descending (nargsort_reversed :: int list \<Rightarrow> nat list)
   \<and> top_tours nargsort_reversed (bookings_tours ex_bookings ex_tours)
       = [(''T3'', 2), (''T1'', 2), (''T2'', 1)]
   \<and> first_pos (Some ''T1'') (map bt_TourName (bookings_tours ex_bookings ex_tours)) = 1
   \<and> first_pos (Some ''T3'') (map bt_TourName (bookings_tours ex_bookings ex_tours)) = 3"
proof -
  have k: "sorts_descending (nargsort_reversed :: int list \<Rightarrow> nat list)"
    by (rule nargsort_reversed_sorts)
  have a: "top_tours nargsort_reversed (bookings_tours ex_bookings ex_tours)
       = [(''T3'', 2), (''T1'', 2), (''T2'', 1)]"
    by code_simp
  have c: "first_pos (Some ''T1'') (map bt_TourName (bookings_tours ex_bookings ex_tours)) = 1"
    by code_simp
  have d: "first_pos (Some ''T3'') (map bt_TourName (bookings_tours ex_bookings ex_tours)) = 3"
    by code_simp
  from k a c d show ?thesis by (simp only: simp_thms)
qed

subsection \<open>Bookings without a tour or a guide\<close>

text \<open>
  C10, as the code has it.  A booking whose TourID matches no tour row is in the joined
  table with a missing tour part, so its TourName is missing, and the counting drops it:
  the counts of \<open>top_tours\<close> add up to strictly less than the number of rows of the
  joined table.  With unique tour ids that number is the number of booking rows.  The
  same holds for a booking whose GuideID matches no guide row and the counts of
  \<open>top_guides_03_2025\<close>, with unique tour and guide ids.
\<close>

theorem orphan_bookings_not_counted:
  assumes "sorts_descending nargsort"
  shows
  "(b \<in> set bookings \<and> bk_TourID b \<notin> tour_id ` set tours \<longrightarrow>
       (b, None) \<in> set (bookings_tours bookings tours)
     \<and> bt_TourName (b, None) = None
     \<and> sum_list (map snd (top_tours nargsort (bookings_tours bookings tours)))
         < int (length (bookings_tours bookings tours)))
   \<and> (b \<in> set bookings \<and> bk_GuideID b \<notin> guide_id ` set guides \<longrightarrow>
       (\<exists>ot. ((b, ot), None) \<in> set (bookings_merged bookings tours guides)
             \<and> bm_GuideName ((b, ot), None) = None)
     \<and> sum_list (map snd (top_guides_03_2025 nargsort (bookings_merged bookings tours guides)))
         < int (length (bookings_merged bookings tours guides)))
   \<and> (distinct (map tour_id tours) \<longrightarrow>
         length (bookings_tours bookings tours) = length bookings)
   \<and> (distinct (map tour_id tours) \<and> distinct (map guide_id guides) \<longrightarrow>
         length (bookings_merged bookings tours guides) = length bookings)"
proof (intro conjI impI)
  assume o: "b \<in> set bookings \<and> bk_TourID b \<notin> tour_id ` set tours"
  then show in_bt: "(b, None) \<in> set (bookings_tours bookings tours)"
    unfolding bookings_tours_set by blast
  show "bt_TourName (b, None) = None" by (simp add: bt_TourName_def)
  have "bt_TourName (b, None) \<in> set (map bt_TourName (bookings_tours bookings tours))"
    using in_bt by (simp only: set_map) (rule imageI)
  then have "None \<in> set (map bt_TourName (bookings_tours bookings tours))"
    by (simp add: bt_TourName_def)
  from head_total_less[OF assms this, of 10]
  show "sum_list (map snd (top_tours nargsort (bookings_tours bookings tours)))
         < int (length (bookings_tours bookings tours))"
    by (simp add: top_tours_def)
next
  assume o: "b \<in> set bookings \<and> bk_GuideID b \<notin> guide_id ` set guides"
  then have "b \<in> fst ` set (bookings_tours bookings tours)"
    unfolding bookings_tours_def merge_left_fst by simp
  then obtain ot where ot: "(b, ot) \<in> set (bookings_tours bookings tours)" by auto
  with o have in_bm: "((b, ot), None) \<in> set (bookings_merged bookings tours guides)"
    unfolding bookings_merged_set by auto
  then show "\<exists>ot. ((b, ot), None) \<in> set (bookings_merged bookings tours guides)
             \<and> bm_GuideName ((b, ot), None) = None"
    by (auto simp: bm_GuideName_def)
  have "bm_GuideName ((b, ot), None) \<in> set (map bm_GuideName (bookings_merged bookings tours guides))"
    using in_bm by (simp only: set_map) (rule imageI)
  then have "None \<in> set (map bm_GuideName (bookings_merged bookings tours guides))"
    by (simp add: bm_GuideName_def)
  from head_total_less[OF assms this, of 10]
  show "sum_list (map snd (top_guides_03_2025 nargsort (bookings_merged bookings tours guides)))
         < int (length (bookings_merged bookings tours guides))"
    by (simp add: top_guides_03_2025_def)
next
  assume "distinct (map tour_id tours)"
  then have "map fst (bookings_tours bookings tours) = bookings"
    by (rule bookings_tours_unique_ids)
  then show "length (bookings_tours bookings tours) = length bookings"
    by (metis length_map)
next
  assume "distinct (map tour_id tours) \<and> distinct (map guide_id guides)"
  then have "map (fst \<circ> fst) (bookings_merged bookings tours guides) = bookings"
    using bookings_merged_unique_ids by blast
  then show "length (bookings_merged bookings tours guides) = length bookings"
    by (metis length_map)
qed

theorem orphan_bookings_not_counted_witness:
  "sorts_descending (nargsort_stable :: int list \<Rightarrow> nat list)
   \<and> top_tours nargsort_stable (bookings_tours ex_bookings ex_tours)
       = [(''T1'', 2), (''T3'', 2), (''T2'', 1)]
   \<and> top_guides_03_2025 nargsort_stable (bookings_merged ex_bookings ex_tours ex_guides)
       = [(''G1'', 3), (''G2'', 2)]
   \<and> sum_list (map snd (top_tours nargsort_stable (bookings_tours ex_bookings ex_tours))) < 6
   \<and> sum_list (map snd (top_guides_03_2025 nargsort_stable
                           (bookings_merged ex_bookings ex_tours ex_guides))) < 6
   \<and> length ex_bookings = 6
   \<and> ex_bookings ! 5 \<in> set ex_bookings
   \<and> bk_TourID (ex_bookings ! 5) \<notin> tour_id ` set ex_tours
   \<and> ex_bookings ! 4 \<in> set ex_bookings
   \<and> bk_GuideID (ex_bookings ! 4) \<notin> guide_id ` set ex_guides
   \<and> distinct (map tour_id ex_tours) \<and> distinct (map guide_id ex_guides)"
proof -
  have k: "sorts_descending (nargsort_stable :: int list \<Rightarrow> nat list)"
    by (rule nargsort_stable_sorts)
  have a: "top_tours nargsort_stable (bookings_tours ex_bookings ex_tours)
      = [(''T1'', 2), (''T3'', 2), (''T2'', 1)]"
    by code_simp
  have b: "top_guides_03_2025 nargsort_stable (bookings_merged ex_bookings ex_tours ex_guides)
           = [(''G1'', 3), (''G2'', 2)]"
    by code_simp
  have c: "length ex_bookings = 6" by code_simp
  have d: "ex_bookings ! 5 \<in> set ex_bookings" "ex_bookings ! 4 \<in> set ex_bookings"
    by (simp_all add: ex_bookings_def)
  have e: "bk_TourID (ex_bookings ! 5) \<notin> tour_id ` set ex_tours"
    by (simp add: ex_bookings_def ex_tours_def)
  have f: "bk_GuideID (ex_bookings ! 4) \<notin> guide_id ` set ex_guides"
    by (simp add: ex_bookings_def ex_guides_def)
  have g: "distinct (map tour_id ex_tours)" "distinct (map guide_id ex_guides)"
    by (simp_all add: ex_tours_def ex_guides_def)
  have t: "sum_list (map snd (top_tours nargsort_stable (bookings_tours ex_bookings ex_tours))) < 6"
    using orphan_bookings_not_counted[OF k, of "ex_bookings ! 5" ex_bookings ex_tours ex_guides]
      d(1) e g(1) c by simp
  have u: "sum_list (map snd (top_guides_03_2025 nargsort_stable
                           (bookings_merged ex_bookings ex_tours ex_guides))) < 6"
    using orphan_bookings_not_counted[OF k, of "ex_bookings ! 4" ex_bookings ex_tours ex_guides]
      d(2) f g c by simp
  from k a b c d e f g t u show ?thesis by (simp only: simp_thms)
qed

text \<open>
  Two tour rows with the id 1: the booking of tour 1 is joined to both and counted for
  both names, and the counts add up to 2, the number of booking rows, although the
  second booking names a tour that does not exist.
\<close>

theorem orphan_booking_duplicate_tour_id:
  "set (top_tours nargsort_stable (bookings_tours ex_bookings_dup ex_tours_dup))
     = {(''Ta'', 1), (''Tb'', 1)}
   \<and> sum_list (map snd (top_tours nargsort_stable (bookings_tours ex_bookings_dup ex_tours_dup))) = 2
   \<and> length ex_bookings_dup = 2
   \<and> ex_bookings_dup ! 1 \<in> set ex_bookings_dup
   \<and> bk_TourID (ex_bookings_dup ! 1) \<notin> tour_id ` set ex_tours_dup"
proof -
  have a: "top_tours nargsort_stable (bookings_tours ex_bookings_dup ex_tours_dup)
     = [(''Ta'', 1), (''Tb'', 1)]"
    by code_simp
  have b: "length ex_bookings_dup = 2" "ex_bookings_dup ! 1 \<in> set ex_bookings_dup"
    "bk_TourID (ex_bookings_dup ! 1) \<notin> tour_id ` set ex_tours_dup"
    by (simp_all add: ex_bookings_dup_def ex_tours_dup_def)
  from a b show ?thesis by simp
qed

subsection \<open>Availability days per guide\<close>

lemma groupby_nunique_keys:
  "map fst (groupby_nunique key col rows) = sort (remdups (dropna (map key rows)))"
  by (simp add: groupby_nunique_def comp_def)

lemma groupby_nunique_distinct: "distinct (map fst (groupby_nunique key col rows))"
  by (simp add: groupby_nunique_keys)

lemma in_dropna: "v \<in> set (dropna cs) \<longleftrightarrow> Some v \<in> set cs"
  by (simp add: set_dropna)

lemma group_values:
  "set (dropna (map col (filter (\<lambda>r. key r = Some k) rows)))
     = {d. \<exists>r \<in> set rows. key r = Some k \<and> col r = Some d}"
proof (rule set_eqI)
  fix d
  have "Some d \<in> set (map col (filter (\<lambda>r. key r = Some k) rows))
        \<longleftrightarrow> (\<exists>r \<in> set rows. key r = Some k \<and> col r = Some d)"
    by (force simp: image_iff)
  then show "d \<in> set (dropna (map col (filter (\<lambda>r. key r = Some k) rows)))
        \<longleftrightarrow> d \<in> {d. \<exists>r \<in> set rows. key r = Some k \<and> col r = Some d}"
    by (simp only: in_dropna mem_Collect_eq)
qed

lemma groupby_nunique_set:
  "(k, c) \<in> set (groupby_nunique key col rows) \<longleftrightarrow>
     (\<exists>r \<in> set rows. key r = Some k)
     \<and> c = int (card {d. \<exists>r \<in> set rows. key r = Some k \<and> col r = Some d})"
proof -
  have cnt: "length (remdups (dropna (map col (filter (\<lambda>r. key r = Some k) rows))))
        = card {d. \<exists>r \<in> set rows. key r = Some k \<and> col r = Some d}" for k
    by (simp only: length_remdups_card_conv group_values)
  have "Some k \<in> set (map key rows) \<longleftrightarrow> (\<exists>r \<in> set rows. key r = Some k)"
    by (force simp: image_iff)
  then have keys: "k \<in> set (sort (remdups (dropna (map key rows)))) \<longleftrightarrow> (\<exists>r \<in> set rows. key r = Some k)"
    by (simp only: set_sort set_remdups in_dropna)
  have "(k, c) \<in> set (groupby_nunique key col rows) \<longleftrightarrow>
      k \<in> set (sort (remdups (dropna (map key rows))))
      \<and> c = int (card {d. \<exists>r \<in> set rows. key r = Some k \<and> col r = Some d})"
    unfolding groupby_nunique_def set_map cnt by blast
  then show ?thesis by (simp only: keys)
qed

lemma availability_days_guides_Some:
  "(g, Some a) \<in> set (availability_days_guides guides availability) \<longleftrightarrow>
     g \<in> set guides \<and> a \<in> set availability \<and> av_GuideID a = guide_id g"
  unfolding availability_days_guides_set by blast

lemma valid_avail_Some:
  "(g, Some a) \<in> set (valid_avail_03 (availability_days_guides guides availability)) \<longleftrightarrow>
     g \<in> set guides \<and> a \<in> set availability \<and> av_GuideID a = guide_id g
     \<and> GuideAvailability a \<noteq> None \<and> GuideAvailability a \<noteq> Some []"
  by (simp add: valid_avail_03_def availability_days_guides_Some adg_GuideAvailability_def)

lemma valid_avail_None:
  "(g, None) \<notin> set (valid_avail_03 (availability_days_guides guides availability))"
  by (simp add: valid_avail_03_def adg_GuideAvailability_def)

lemma valid_avail_Bex:
  "(\<exists>r \<in> set (valid_avail_03 (availability_days_guides guides availability)). Q r) \<longleftrightarrow>
     (\<exists>g a. (g \<in> set guides \<and> a \<in> set availability \<and> av_GuideID a = guide_id g
            \<and> GuideAvailability a \<noteq> None \<and> GuideAvailability a \<noteq> Some [])
          \<and> Q (g, Some a))"
  (is "?L \<longleftrightarrow> ?R")
proof
  assume ?L
  then obtain r where r: "r \<in> set (valid_avail_03 (availability_days_guides guides availability))" "Q r"
    by blast
  obtain g oa where p: "r = (g, oa)" by (cases r)
  show ?R
  proof (cases oa)
    case None
    with r p show ?thesis using valid_avail_None[of g guides availability] by simp
  next
    case (Some a)
    with r p have "(g, Some a) \<in> set (valid_avail_03 (availability_days_guides guides availability))"
      "Q (g, Some a)" by simp_all
    then show ?thesis unfolding valid_avail_Some by blast
  qed
next
  assume ?R
  then obtain g a where "(g, Some a) \<in> set (valid_avail_03 (availability_days_guides guides availability))"
    "Q (g, Some a)" unfolding valid_avail_Some[symmetric] by blast
  then show ?L by blast
qed

text \<open>
  C4. The series of availability days has one row per guide name that has a record with
  a present, non-empty GuideAvailability; the value of the row is the number of distinct
  AvailabilityDate values among those records of that name; the rows are in descending
  order of that number.  Insight 4.1 shows the first ten rows.  This holds for every
  kernel of the sort.
\<close>

theorem availability_days_counted:
  assumes "sorts_descending nargsort"
  shows
  "sorted_wrt (\<lambda>r s. snd s \<le> snd r)
     (available_days_per_guide_03 nargsort
        (valid_avail_03 (availability_days_guides guides availability)))
   \<and> distinct (map fst
       (available_days_per_guide_03 nargsort
          (valid_avail_03 (availability_days_guides guides availability))))
   \<and> (\<forall>k c. (k, c) \<in> set (available_days_per_guide_03 nargsort
                 (valid_avail_03 (availability_days_guides guides availability))) \<longleftrightarrow>
         (\<exists>g a. g \<in> set guides \<and> a \<in> set availability \<and> av_GuideID a = guide_id g
               \<and> GuideName g = k
               \<and> GuideAvailability a \<noteq> None \<and> GuideAvailability a \<noteq> Some [])
         \<and> c = int (card {d. \<exists>g a. g \<in> set guides \<and> a \<in> set availability
               \<and> av_GuideID a = guide_id g \<and> GuideName g = k
               \<and> GuideAvailability a \<noteq> None \<and> GuideAvailability a \<noteq> Some []
               \<and> AvailabilityDate a = Some d}))
   \<and> available_days_per_guide_03_top10 nargsort
         (valid_avail_03 (availability_days_guides guides availability))
       = head 10 (available_days_per_guide_03 nargsort
                    (valid_avail_03 (availability_days_guides guides availability)))"
proof (intro conjI allI)
  let ?V = "valid_avail_03 (availability_days_guides guides availability)"
  show "sorted_wrt (\<lambda>r s. snd s \<le> snd r) (available_days_per_guide_03 nargsort ?V)"
    unfolding available_days_per_guide_03_def by (rule sorted_sort_values_desc[OF assms])
  show "distinct (map fst (available_days_per_guide_03 nargsort ?V))"
    unfolding available_days_per_guide_03_def
    by (simp add: distinct_map_sort_values_desc[OF assms] groupby_nunique_distinct)
  show "available_days_per_guide_03_top10 nargsort ?V
      = head 10 (available_days_per_guide_03 nargsort ?V)"
    by (simp add: available_days_per_guide_03_top10_def)
  fix k c
  have ex: "(\<exists>r \<in> set ?V. adg_GuideName r = Some k) \<longleftrightarrow>
      (\<exists>g a. g \<in> set guides \<and> a \<in> set availability \<and> av_GuideID a = guide_id g
               \<and> GuideName g = k
               \<and> GuideAvailability a \<noteq> None \<and> GuideAvailability a \<noteq> Some [])"
    unfolding valid_avail_Bex by (simp add: adg_GuideName_def conj_ac)
  have days: "{d. \<exists>r \<in> set ?V. adg_GuideName r = Some k \<and> adg_AvailabilityDate r = Some d}
      = {d. \<exists>g a. g \<in> set guides \<and> a \<in> set availability
               \<and> av_GuideID a = guide_id g \<and> GuideName g = k
               \<and> GuideAvailability a \<noteq> None \<and> GuideAvailability a \<noteq> Some []
               \<and> AvailabilityDate a = Some d}"
    unfolding valid_avail_Bex by (simp add: adg_GuideName_def adg_AvailabilityDate_def conj_ac)
  show "(k, c) \<in> set (available_days_per_guide_03 nargsort ?V) \<longleftrightarrow>
         (\<exists>g a. g \<in> set guides \<and> a \<in> set availability \<and> av_GuideID a = guide_id g
               \<and> GuideName g = k
               \<and> GuideAvailability a \<noteq> None \<and> GuideAvailability a \<noteq> Some [])
         \<and> c = int (card {d. \<exists>g a. g \<in> set guides \<and> a \<in> set availability
               \<and> av_GuideID a = guide_id g \<and> GuideName g = k
               \<and> GuideAvailability a \<noteq> None \<and> GuideAvailability a \<noteq> Some []
               \<and> AvailabilityDate a = Some d})"
    unfolding available_days_per_guide_03_def set_sort_values_desc[OF assms]
      groupby_nunique_set ex days
    by (rule refl)
qed

theorem availability_days_counted_witness:
  "sorts_descending (nargsort_stable :: int list \<Rightarrow> nat list)
   \<and> available_days_per_guide_03 nargsort_stable
       (valid_avail_03 (availability_days_guides ex_guides ex_availability))
     = [(''G1'', 1)]
   \<and> (''G1'', 1) \<in> set (available_days_per_guide_03 nargsort_stable
         (valid_avail_03 (availability_days_guides ex_guides ex_availability)))
   \<and> int (card {d. \<exists>g a. g \<in> set ex_guides \<and> a \<in> set ex_availability
               \<and> av_GuideID a = guide_id g \<and> GuideName g = ''G1''
               \<and> GuideAvailability a \<noteq> None \<and> GuideAvailability a \<noteq> Some []
               \<and> AvailabilityDate a = Some d}) = 1"
proof -
  have k: "sorts_descending (nargsort_stable :: int list \<Rightarrow> nat list)"
    by (rule nargsort_stable_sorts)
  have a: "available_days_per_guide_03 nargsort_stable
       (valid_avail_03 (availability_days_guides ex_guides ex_availability))
     = [(''G1'', 1)]"
    by code_simp
  have b: "(''G1'', 1) \<in> set (available_days_per_guide_03 nargsort_stable
         (valid_avail_03 (availability_days_guides ex_guides ex_availability)))"
    by (simp add: a)
  from availability_days_counted[OF k, of ex_guides ex_availability]
  have "\<And>k c. (k, c) \<in> set (available_days_per_guide_03 nargsort_stable
                 (valid_avail_03 (availability_days_guides ex_guides ex_availability))) \<Longrightarrow>
         c = int (card {d. \<exists>g a. g \<in> set ex_guides \<and> a \<in> set ex_availability
               \<and> av_GuideID a = guide_id g \<and> GuideName g = k
               \<and> GuideAvailability a \<noteq> None \<and> GuideAvailability a \<noteq> Some []
               \<and> AvailabilityDate a = Some d})"
    by blast
  from this[OF b] k a b show ?thesis by simp
qed

subsection \<open>Days not available\<close>

lemma monthrange_ndays_range:
  assumes "1 \<le> month" "month \<le> 12"
  shows "\<exists>d. monthrange_ndays year month = Inr d \<and> 28 \<le> d \<and> d \<le> 31"
proof -
  from assms have "month \<in> {1, 2, 3, 4, 5, 6, 7, 8, 9, 10, 11, 12}" by simp presburger
  then show ?thesis
    by (auto simp: monthrange_ndays_def mdays_def)
qed

lemma monthrange_march: "monthrange_ndays YEAR 3 = Inr 31"
  by (simp add: monthrange_ndays_def mdays_def YEAR_def)

text \<open>
  C5, as the code has it.  For a month from 1 to 12 nothing is raised: the series of
  days not available has, for every guide of the availability series, the number of
  days of the month minus that guide's count, as a signed integer, sorted in descending
  order.  There is no check on the sign: a guide whose count exceeds the days of the
  month is reported with a negative number.  March 2025 has 31 days.  This holds for
  every kernel of the sort.
\<close>

theorem not_available_days:
  assumes "sorts_descending nargsort"
  shows
  "(1 \<le> month \<and> month \<le> 12 \<longrightarrow>
      (\<exists>d r. monthrange_ndays YEAR month = Inr d \<and> 28 \<le> d \<and> d \<le> 31
          \<and> not_available nargsort month avail = Inr r
          \<and> set r = (\<lambda>x. (fst x, d - snd x)) ` set avail
          \<and> length r = length avail
          \<and> sorted_wrt (\<lambda>a b. snd b \<le> snd a) r
          \<and> (\<forall>k c. (k, c) \<in> set avail \<and> d < c \<longrightarrow> (k, d - c) \<in> set r \<and> d - c < 0)))
   \<and> not_available_03_2025 nargsort avail = not_available nargsort 3 avail
   \<and> monthrange_ndays YEAR 3 = Inr 31
   \<and> get_days_in_month 3 YEAR = Inr 31"
proof (intro conjI impI)
  assume m: "1 \<le> month \<and> month \<le> 12"
  then obtain d where d: "monthrange_ndays YEAR month = Inr d" "28 \<le> d" "d \<le> 31"
    using monthrange_ndays_range[of month YEAR] by blast
  let ?r = "sort_values_desc nargsort snd (map (\<lambda>x. (fst x, d - snd x)) avail)"
  have r: "not_available nargsort month avail = Inr ?r"
    by (simp add: not_available_def d(1))
  have s: "set ?r = (\<lambda>x. (fst x, d - snd x)) ` set avail"
    by (simp add: set_sort_values_desc[OF assms])
  have neg: "\<forall>k c. (k, c) \<in> set avail \<and> d < c \<longrightarrow> (k, d - c) \<in> set ?r \<and> d - c < 0"
    unfolding s by force
  have "length ?r = length avail" by (simp add: length_sort_values_desc[OF assms])
  moreover have "sorted_wrt (\<lambda>a b. snd b \<le> snd a) ?r"
    by (rule sorted_sort_values_desc[OF assms])
  ultimately show "\<exists>d r. monthrange_ndays YEAR month = Inr d \<and> 28 \<le> d \<and> d \<le> 31
          \<and> not_available nargsort month avail = Inr r
          \<and> set r = (\<lambda>x. (fst x, d - snd x)) ` set avail
          \<and> length r = length avail
          \<and> sorted_wrt (\<lambda>a b. snd b \<le> snd a) r
          \<and> (\<forall>k c. (k, c) \<in> set avail \<and> d < c \<longrightarrow> (k, d - c) \<in> set r \<and> d - c < 0)"
    using d r s neg by blast
next
  show "not_available_03_2025 nargsort avail = not_available nargsort 3 avail"
    by (simp add: not_available_03_2025_def)
  show "monthrange_ndays YEAR 3 = Inr 31" by (rule monthrange_march)
  show "get_days_in_month 3 YEAR = Inr 31"
    by (simp add: get_days_in_month_def monthrange_march)
qed

theorem not_available_days_witness:
  "sorts_descending (nargsort_stable :: int list \<Rightarrow> nat list)
   \<and> not_available nargsort_stable 3 [(''G1'', 1), (''G2'', 32)]
       = Inr [(''G1'', 30), (''G2'', - 1)]
   \<and> monthrange_ndays YEAR 3 = Inr 31
   \<and> not_available_03_2025 nargsort_stable [(''G1'', 1), (''G2'', 32)]
       = not_available nargsort_stable 3 [(''G1'', 1), (''G2'', 32)]"
proof -
  have k: "sorts_descending (nargsort_stable :: int list \<Rightarrow> nat list)"
    by (rule nargsort_stable_sorts)
  have "not_available nargsort_stable 3 [(''G1'', 1), (''G2'', 32)]
      = Inr [(''G1'', 30), (''G2'', - 1)]"
    by code_simp
  with k not_available_days[OF k, of 3 "[(''G1'', 1), (''G2'', 32)]"] show ?thesis by simp
qed

text \<open>
  With availability entered for 32 distinct dates in the March file, the guide is
  reported with -1 days not available: no warning, no error, no clamping.
\<close>

theorem not_available_negative:
  "available_days_per_guide_03 nargsort_stable
       (valid_avail_03 (availability_days_guides ex_guides ex_overbooked))
     = [(''G1'', 32)]
   \<and> not_available_03_2025 nargsort_stable
       (available_days_per_guide_03 nargsort_stable
          (valid_avail_03 (availability_days_guides ex_guides ex_overbooked)))
     = Inr [(''G1'', - 1)]"
  by code_simp

subsection \<open>Rounding to binary64\<close>

lemma pow2_powi: "pow2 e = 2 powi e"
  by (simp add: pow2_def power_int_def inverse_eq_divide power_one_over)

lemma pow2_pos: "0 < pow2 e"
  by (simp add: pow2_def)

lemma pow2_add: "pow2 (a + b) = pow2 a * pow2 b"
  by (simp add: pow2_powi power_int_add)

lemma pow2_of_nat: "0 \<le> k \<Longrightarrow> pow2 k = of_int (2 ^ nat k)"
  by (simp add: pow2_def)

lemma bit_length_bounds:
  "0 < n \<Longrightarrow> 0 < bit_length n \<and> 2 ^ nat (bit_length n - 1) \<le> n \<and> n < 2 ^ nat (bit_length n)"
proof (induction n rule: bit_length.induct)
  case (1 n)
  show ?case
  proof (cases "n div 2 = 0")
    case True
    with 1(2) have n: "n = 1" by linarith
    have "bit_length 1 = 1" by (simp add: bit_length.simps[of 1] bit_length.simps[of 0])
    with n show ?thesis by simp
  next
    case False
    with 1(2) have pos: "0 < n div 2" by linarith
    from 1(2) have nn: "\<not> n \<le> 0" by simp
    from 1(1)[OF nn pos] have b: "0 < bit_length (n div 2)"
      and lo: "2 ^ nat (bit_length (n div 2) - 1) \<le> n div 2"
      and hi: "n div 2 < 2 ^ nat (bit_length (n div 2))" by simp_all
    have bl: "bit_length n = 1 + bit_length (n div 2)"
      using nn by (simp add: bit_length.simps[of n])
    have e1: "nat (bit_length n - 1) = Suc (nat (bit_length (n div 2) - 1))"
      using b bl by simp
    have e2: "nat (bit_length n) = Suc (nat (bit_length (n div 2)))"
      using b bl by simp
    have "2 * 2 ^ nat (bit_length (n div 2) - 1) \<le> n" using lo by linarith
    moreover have "n < 2 * 2 ^ nat (bit_length (n div 2))" using hi by linarith
    ultimately show ?thesis using b bl unfolding e1 e2 by simp
  qed
qed

lemma bit_length_pow2:
  assumes "0 < n"
  shows "pow2 (bit_length n - 1) \<le> of_int n" and "of_int n < pow2 (bit_length n)"
proof -
  note b = bit_length_bounds[OF assms]
  have "(of_int (2 ^ nat (bit_length n - 1)) :: rat) \<le> of_int n"
    using b by (simp only: of_int_le_iff)
  then show "pow2 (bit_length n - 1) \<le> of_int n"
    using b by (simp add: pow2_of_nat)
  have "(of_int n :: rat) < of_int (2 ^ nat (bit_length n))"
    using b by (simp only: of_int_less_iff)
  then show "of_int n < pow2 (bit_length n)"
    using b by (simp add: pow2_of_nat)
qed

lemma floor_log2_bounds:
  assumes "0 < a"
  shows "pow2 (floor_log2 a) \<le> a" and "a < pow2 (floor_log2 a + 1)"
proof -
  obtain p q where pq: "quotient_of a = (p, q)" by (cases "quotient_of a")
  then have q: "0 < q" and a: "a = of_int p / of_int q"
    by (simp_all add: quotient_of_denom_pos quotient_of_div)
  from assms a q have p: "0 < p" by (simp add: zero_less_divide_iff)
  let ?c = "bit_length p - bit_length q"
  have c: "floor_log2 a = (if pow2 ?c \<le> a then ?c else ?c - 1)"
    by (simp add: floor_log2_def pq)
  have qpos: "(0 :: rat) < of_int q" using q by simp
  have "pow2 (?c - 1) * of_int q < pow2 (?c - 1) * pow2 (bit_length q)"
    using bit_length_pow2(2)[OF q] pow2_pos[of "?c - 1"] by simp
  also have "\<dots> = pow2 (bit_length p - 1)"
    by (simp add: pow2_add[symmetric])
  also have "\<dots> \<le> of_int p" by (rule bit_length_pow2(1)[OF p])
  finally have lo: "pow2 (?c - 1) < a"
    unfolding a using qpos by (simp add: pos_less_divide_eq)
  have "of_int p < pow2 (bit_length p)" by (rule bit_length_pow2(2)[OF p])
  also have "\<dots> = pow2 (?c + 1) * pow2 (bit_length q - 1)"
    by (simp add: pow2_add[symmetric])
  also have "\<dots> \<le> pow2 (?c + 1) * of_int q"
    using bit_length_pow2(1)[OF q] pow2_pos[of "?c + 1"] by simp
  finally have hi: "a < pow2 (?c + 1)"
    unfolding a using qpos by (simp add: pos_divide_less_eq)
  show "pow2 (floor_log2 a) \<le> a" using lo unfolding c by simp
  show "a < pow2 (floor_log2 a + 1)" using hi unfolding c by simp
qed

lemma rint_error: "\<bar>of_int (rint q) - q\<bar> \<le> 1 / 2"
proof -
  have "of_int \<lfloor>q\<rfloor> \<le> q" "q < of_int \<lfloor>q\<rfloor> + 1" by linarith+
  then show ?thesis by (auto simp: rint_def Let_def)
qed

lemma rint_nonneg: "0 \<le> q \<Longrightarrow> 0 \<le> rint q"
  by (auto simp: rint_def Let_def)

lemma float64_of_error:
  "\<bar>float64_of q - q\<bar> \<le> \<bar>q\<bar> / 2 ^ 53"
proof (cases "q = 0")
  case True
  then show ?thesis by (simp add: float64_of_def)
next
  case False
  let ?a = "\<bar>q\<bar>"
  let ?s = "floor_log2 ?a - 52"
  let ?x = "?a / pow2 ?s"
  from False have a: "0 < ?a" by simp
  have sp: "0 < pow2 ?s" by (rule pow2_pos)
  have f: "float64_of q = sgn q * (of_int (rint ?x) * pow2 ?s)"
    using False by (simp add: float64_of_def Let_def)
  have q: "q = sgn q * (?x * pow2 ?s)" using sp by (simp add: sgn_mult_abs)
  have "float64_of q - q = sgn q * ((of_int (rint ?x) - ?x) * pow2 ?s)"
    unfolding f by (subst q) (simp only: right_diff_distrib left_diff_distrib)
  then have "\<bar>float64_of q - q\<bar> = \<bar>of_int (rint ?x) - ?x\<bar> * pow2 ?s"
    using False sp by (simp add: abs_mult abs_sgn_eq)
  also have "\<dots> \<le> 1 / 2 * pow2 ?s"
    using rint_error[of ?x] sp by (simp only: mult_right_mono less_imp_le)
  also have "\<dots> = pow2 (floor_log2 ?a) / 2 ^ 53"
  proof -
    have "pow2 (floor_log2 ?a) = pow2 ?s * pow2 52"
      by (simp add: pow2_add[symmetric])
    then show ?thesis by (simp add: pow2_def)
  qed
  also have "\<dots> \<le> ?a / 2 ^ 53"
    using floor_log2_bounds(1)[OF a] by (simp add: divide_right_mono)
  finally show ?thesis .
qed


lemma float64_of_significand:
  assumes "q \<noteq> 0"
  shows "\<exists>k. float64_of q = sgn q * of_int k * pow2 (floor_log2 \<bar>q\<bar> - 52)
             \<and> 2 ^ 52 \<le> k \<and> k \<le> 2 ^ 53"
proof -
  let ?a = "\<bar>q\<bar>"
  let ?s = "floor_log2 ?a - 52"
  let ?x = "?a / pow2 ?s"
  from assms have a: "0 < ?a" by simp
  have sp: "0 < pow2 ?s" by (rule pow2_pos)
  have "pow2 (?s + 52) = pow2 ?s * 2 ^ 52" "pow2 (?s + 53) = pow2 ?s * 2 ^ 53"
    unfolding pow2_add by (simp_all add: pow2_def)
  moreover have "?s + 52 = floor_log2 ?a" "?s + 53 = floor_log2 ?a + 1" by simp_all
  ultimately have e: "pow2 (floor_log2 ?a) = pow2 ?s * 2 ^ 52"
    "pow2 (floor_log2 ?a + 1) = pow2 ?s * 2 ^ 53"
    by simp_all
  have lo: "2 ^ 52 \<le> ?x"
    using floor_log2_bounds(1)[OF a] sp unfolding e by (simp add: pos_le_divide_eq mult.commute)
  have hi: "?x < 2 ^ 53"
    using floor_log2_bounds(2)[OF a] sp unfolding e by (simp add: pos_divide_less_eq mult.commute)
  have "(of_int (2 ^ 52) :: rat) \<le> ?x" using lo by simp
  then have flo: "2 ^ 52 \<le> \<lfloor>?x\<rfloor>" by (simp only: le_floor_iff)
  have "?x < (of_int (2 ^ 53) :: rat)" using hi by simp
  then have fhi: "\<lfloor>?x\<rfloor> < 2 ^ 53" by (simp only: floor_less_iff)
  have "rint ?x = \<lfloor>?x\<rfloor> \<or> rint ?x = \<lfloor>?x\<rfloor> + 1" by (simp add: rint_def Let_def)
  with flo fhi have "2 ^ 52 \<le> rint ?x \<and> rint ?x \<le> 2 ^ 53" by auto
  moreover have "float64_of q = sgn q * of_int (rint ?x) * pow2 ?s"
    using assms by (simp add: float64_of_def Let_def)
  ultimately show ?thesis by blast
qed

lemma float64_of_nonneg: "0 \<le> q \<Longrightarrow> 0 \<le> float64_of q"
proof (cases "q = 0")
  case True
  then show ?thesis by (simp add: float64_of_def)
next
  case False
  assume "0 \<le> q"
  with False have q: "0 < q" by simp
  have "0 \<le> \<bar>q\<bar> / pow2 (floor_log2 \<bar>q\<bar> - 52)"
    using pow2_pos[of "floor_log2 \<bar>q\<bar> - 52"] by simp
  then have "0 \<le> rint (\<bar>q\<bar> / pow2 (floor_log2 \<bar>q\<bar> - 52))" by (rule rint_nonneg)
  then have "0 \<le> (of_int (rint (\<bar>q\<bar> / pow2 (floor_log2 \<bar>q\<bar> - 52))) :: rat)
       * pow2 (floor_log2 \<bar>q\<bar> - 52)"
    using pow2_pos[of "floor_log2 \<bar>q\<bar> - 52"] by simp
  with q False show ?thesis by (simp add: float64_of_def Let_def)
qed

lemma float64_of_near:
  assumes "0 \<le> q"
  shows "q - q / 9007199254740992 \<le> float64_of q"
    and "float64_of q \<le> q + q / 9007199254740992"
proof -
  have "\<bar>float64_of q - q\<bar> \<le> q / 9007199254740992"
    using float64_of_error[of q] assms by simp
  then show "q - q / 9007199254740992 \<le> float64_of q"
    and "float64_of q \<le> q + q / 9007199254740992"
    by linarith+
qed

lemma truediv_near:
  fixes M N :: rat
  assumes "0 \<le> M" and "0 < N"
  shows "M / N - 3 * (M / N) / 9007199254740992 \<le> float64_of M / float64_of N"
    and "float64_of M / float64_of N \<le> M / N + 3 * (M / N) / 9007199254740992"
proof -
  let ?x = "M / N"
  let ?fa = "float64_of M"
  let ?fb = "float64_of N"
  have x: "0 \<le> ?x" using assms by simp
  have xN: "?x * N = M" using assms by simp
  note a = float64_of_near[OF assms(1)]
  note b = float64_of_near[of N]
  have fb: "0 < ?fb" using b(1) assms(2) by simp
  have "?x * (N - N / 9007199254740992) \<le> ?x * ?fb"
    using b(1) assms(2) x by (simp only: mult_left_mono less_imp_le)
  then have lo: "M - M / 9007199254740992 \<le> ?x * ?fb"
    using xN by (simp only: right_diff_distrib times_divide_eq_right)
  have "?x * ?fb \<le> ?x * (N + N / 9007199254740992)"
    using b(2) assms(2) x by (simp only: mult_left_mono less_imp_le)
  then have hi: "?x * ?fb \<le> M + M / 9007199254740992"
    using xN by (simp only: distrib_left times_divide_eq_right)
  define t where "t = ?x * ?fb"
  have "?fa \<le> t + 3 * t / 9007199254740992"
    using a(2) lo[folded t_def] assms(1) by linarith
  also have "\<dots> = (?x + 3 * ?x / 9007199254740992) * ?fb"
    unfolding t_def by (simp add: algebra_simps)
  finally have "?fa \<le> (?x + 3 * ?x / 9007199254740992) * ?fb" .
  then show "?fa / ?fb \<le> ?x + 3 * ?x / 9007199254740992"
    using fb by (simp only: pos_divide_le_eq)
  have "0 \<le> t" unfolding t_def using x fb by (intro mult_nonneg_nonneg) simp_all
  then have "t - 3 * t / 9007199254740992 \<le> ?fa"
    using a(1) hi[folded t_def] assms(1) by linarith
  moreover have "t - 3 * t / 9007199254740992 = (?x - 3 * ?x / 9007199254740992) * ?fb"
    unfolding t_def by (simp add: algebra_simps)
  ultimately have "(?x - 3 * ?x / 9007199254740992) * ?fb \<le> ?fa" by simp
  then show "?x - 3 * ?x / 9007199254740992 \<le> ?fa / ?fb"
    using fb by (simp only: pos_le_divide_eq)
qed

lemma OccupancyPct_accuracy:
  fixes M N :: rat
  assumes "0 \<le> M" and "0 < N"
  shows "\<bar>float64_of (of_int (rint (float64_of
            (float64_of (float64_of (float64_of M / float64_of N) * 100) * 100))) / 100)
          - 100 * M / N\<bar>
         \<le> 1 / 200 + (100 * M / N + 1) / 2 ^ 49"
proof -
  define x where "x = M / N"
  define y where "y = float64_of M / float64_of N"
  define f1 where "f1 = float64_of y"
  define f2 where "f2 = float64_of (f1 * 100)"
  define f3 where "f3 = float64_of (f2 * 100)"
  define r :: rat where "r = of_int (rint f3)"
  define w where "w = r / 100"
  define v where "v = float64_of w"
  have x: "0 \<le> x" using assms by (simp add: x_def)
  have y: "x - 3 * x / 9007199254740992 \<le> y" "y \<le> x + 3 * x / 9007199254740992"
    unfolding x_def y_def using truediv_near[OF assms] by simp_all
  have y0: "0 \<le> y"
    unfolding y_def using assms by (simp add: float64_of_nonneg)
  note n1 = float64_of_near[OF y0, folded f1_def]
  have f10: "0 \<le> f1 * 100" unfolding f1_def using y0 by (simp add: float64_of_nonneg)
  note n2 = float64_of_near[OF f10, folded f2_def]
  have f20: "0 \<le> f2 * 100" unfolding f2_def using f10 by (simp add: float64_of_nonneg)
  note n3 = float64_of_near[OF f20, folded f3_def]
  have f30: "0 \<le> f3" unfolding f3_def using f20 by (simp add: float64_of_nonneg)
  have r: "\<bar>r - f3\<bar> \<le> 1 / 2" unfolding r_def by (rule rint_error)
  have r0: "0 \<le> w" unfolding w_def r_def using rint_nonneg[OF f30] by simp
  note n4 = float64_of_near[OF r0, folded v_def]
  have b1: "\<bar>f1 - x\<bar> \<le> 5 * x / 9007199254740992"
    using x y n1 by linarith
  have b2: "\<bar>f2 - 100 * x\<bar> \<le> 700 * x / 9007199254740992"
    using x b1 n2 by linarith
  have b3: "\<bar>f3 - 10000 * x\<bar> \<le> 90000 * x / 9007199254740992"
    using x b2 n3 by linarith
  have b4: "\<bar>w - 100 * x\<bar> \<le> 1 / 200 + 900 * x / 9007199254740992"
    unfolding w_def using b3 r by linarith
  have w1: "w \<le> 100 * x + 1 / 200 + 900 * x / 9007199254740992"
    and w2: "100 * x - 1 / 200 - 900 * x / 9007199254740992 \<le> w"
    using b4 by linarith+
  have "v - 100 * x \<le> 1 / 200 + 1100 * x / 9007199254740992 + 2 / 9007199254740992"
    using x w1 n4(2) by linarith
  moreover have "- (1 / 200 + 1100 * x / 9007199254740992 + 2 / 9007199254740992) \<le> v - 100 * x"
    using x w2 r0 n4(1) by linarith
  ultimately have "\<bar>v - 100 * x\<bar> \<le> 1 / 200 + 1100 * x / 9007199254740992 + 2 / 9007199254740992"
    by linarith
  also have "\<dots> \<le> 1 / 200 + (1600 * x / 9007199254740992 + 16 / 9007199254740992)"
    using x by linarith
  also have "1600 * x / 9007199254740992 + 16 / 9007199254740992 = (100 * x + 1) / 2 ^ 49"
    by (simp add: field_simps)
  finally show ?thesis
    unfolding v_def w_def r_def f3_def f2_def f1_def y_def x_def by simp
qed

subsection \<open>Occupancy\<close>

lemma stats_set:
  "(k, d, a, p) \<in> set (stats occ avail) \<longleftrightarrow>
     k \<in> fst ` set occ \<union> fst ` set avail
     \<and> d = map_of occ k \<and> a = map_of avail k \<and> p = OccupancyPct (map_of occ k) (map_of avail k)"
  by (auto simp: stats_def)

lemma stats_index: "fst ` set (stats occ avail) = fst ` set occ \<union> fst ` set avail"
proof -
  have "map fst (stats occ avail) = sort (remdups (map fst occ @ map fst avail))"
    by (simp add: stats_def comp_def)
  then have "set (map fst (stats occ avail)) = set (map fst occ @ map fst avail)"
    by simp
  then show ?thesis by (simp only: set_map set_append)
qed

lemma occupied_days_distinct:
  "sorts_descending nargsort \<Longrightarrow> distinct (map fst (occupied_days_03_2025 nargsort bm))"
  by (simp add: occupied_days_03_2025_def distinct_map_sort_values_desc groupby_nunique_distinct)

lemma available_days_distinct:
  "sorts_descending nargsort \<Longrightarrow> distinct (map fst (available_days_per_guide_03 nargsort valid))"
  by (simp add: available_days_per_guide_03_def distinct_map_sort_values_desc
      groupby_nunique_distinct)

lemma occupancy_table_set:
  assumes "sorts_descending nargsort_pct"
  shows "set (occupancy_table_03_2025 nargsort nargsort_pct bm valid)
     = set (stats (occupied_days_03_2025 nargsort bm) (available_days_per_guide_03 nargsort valid))"
  by (auto simp: occupancy_table_03_2025_def Let_def set_sort_values_desc[OF assms])

lemma OccupancyPct_finite:
  "n \<noteq> 0 \<Longrightarrow> OccupancyPct (Some m) (Some n)
      = Finite (float64_of (of_int (rint (float64_of
          (float64_of (float64_of (float64_of (of_int m) / float64_of (of_int n)) * 100) * 100)))
          / 100))"
  by (simp add: OccupancyPct_def truediv_def mul_scalar_def round_decimals2_def)

lemma OccupancyPct_special:
  "0 < m \<Longrightarrow> OccupancyPct (Some m) (Some 0) = PosInf"
  "OccupancyPct (Some 0) (Some 0) = NaN"
  "OccupancyPct None a = NaN"
  "OccupancyPct d None = NaN"
  by (simp_all add: OccupancyPct_def truediv_def mul_scalar_def round_decimals2_def
      split: option.split)

text \<open>
  C1, as the code has it.  The occupancy table has one row per guide of either series,
  with the guide's DaysOccupied and AvailableDays (missing when the guide is not in the
  series) and OccupancyPct computed from the two.  With both present and AvailableDays
  positive, OccupancyPct is round(DaysOccupied / AvailableDays * 100, 2) as binary64
  arithmetic computes it, every operation rounded to the format: a finite number, not
  negative, that differs from the exact percentage by at most 0.005 and a relative
  error of \<open>2 ^ - 49\<close>.  Nothing is raised for AvailableDays = 0: the division gives
  plus infinity when DaysOccupied is positive, and NaN when it is 0 too.  A guide
  missing from one of the series gets NaN.  This holds for every kernel of the sorts.
\<close>

theorem occupancy_pct:
  assumes "sorts_descending nargsort" and "sorts_descending nargsort_pct"
  shows
  "fst ` set (occupancy_table_03_2025 nargsort nargsort_pct bm valid)
     = fst ` set (occupied_days_03_2025 nargsort bm)
       \<union> fst ` set (available_days_per_guide_03 nargsort valid)
   \<and> (\<forall>k d a p. (k, d, a, p) \<in> set (occupancy_table_03_2025 nargsort nargsort_pct bm valid) \<longrightarrow>
         (\<forall>m. d = Some m \<longleftrightarrow> (k, m) \<in> set (occupied_days_03_2025 nargsort bm))
       \<and> (\<forall>n. a = Some n \<longleftrightarrow> (k, n) \<in> set (available_days_per_guide_03 nargsort valid))
       \<and> p = OccupancyPct d a)
   \<and> (0 \<le> m \<and> m < 2 ^ 63 \<and> 0 < n \<and> n < 2 ^ 63 \<longrightarrow>
         (\<exists>v. OccupancyPct (Some m) (Some n) = Finite v
            \<and> v = float64_of (of_int (rint (float64_of
                  (float64_of (float64_of (float64_of (of_int m) / float64_of (of_int n)) * 100)
                   * 100))) / 100)
            \<and> 0 \<le> v
            \<and> \<bar>v - 100 * of_int m / of_int n\<bar>
                \<le> 1 / 200 + (100 * of_int m / of_int n + 1) / 2 ^ 49))
   \<and> (0 < m \<longrightarrow> OccupancyPct (Some m) (Some 0) = PosInf)
   \<and> OccupancyPct (Some 0) (Some 0) = NaN
   \<and> OccupancyPct None a' = NaN
   \<and> OccupancyPct d' None = NaN"
proof (intro conjI allI impI)
  let ?occ = "occupied_days_03_2025 nargsort bm"
  let ?avail = "available_days_per_guide_03 nargsort valid"
  note tbl = occupancy_table_set[OF assms(2), of nargsort bm valid]
  show "fst ` set (occupancy_table_03_2025 nargsort nargsort_pct bm valid)
      = fst ` set ?occ \<union> fst ` set ?avail"
    by (simp only: tbl stats_index)
  show "0 < m \<Longrightarrow> OccupancyPct (Some m) (Some 0) = PosInf" by (rule OccupancyPct_special(1))
  show "OccupancyPct (Some 0) (Some 0) = NaN" by (rule OccupancyPct_special(2))
  show "OccupancyPct None a' = NaN" by (rule OccupancyPct_special(3))
  show "OccupancyPct d' None = NaN" by (rule OccupancyPct_special(4))
  {
    assume r: "0 \<le> m \<and> m < 2 ^ 63 \<and> 0 < n \<and> n < 2 ^ 63"
    let ?v = "float64_of (of_int (rint (float64_of
                  (float64_of (float64_of (float64_of (of_int m) / float64_of (of_int n)) * 100)
                   * 100))) / 100)"
    from r have mn: "(0 :: rat) \<le> of_int m" "(0 :: rat) < of_int n" by simp_all
    from r have "OccupancyPct (Some m) (Some n) = Finite ?v"
      by (simp add: OccupancyPct_finite)
    moreover have "0 \<le> ?v"
      by (intro float64_of_nonneg divide_nonneg_nonneg mult_nonneg_nonneg
          iffD2[OF of_int_0_le_iff] rint_nonneg mn(1) less_imp_le[OF mn(2)]) simp_all
    moreover have "\<bar>?v - 100 * of_int m / of_int n\<bar>
                \<le> 1 / 200 + (100 * of_int m / of_int n + 1) / 2 ^ 49"
      by (rule OccupancyPct_accuracy[OF mn])
    ultimately show "\<exists>v. OccupancyPct (Some m) (Some n) = Finite v
            \<and> v = float64_of (of_int (rint (float64_of
                  (float64_of (float64_of (float64_of (of_int m) / float64_of (of_int n)) * 100)
                   * 100))) / 100)
            \<and> 0 \<le> v
            \<and> \<bar>v - 100 * of_int m / of_int n\<bar>
                \<le> 1 / 200 + (100 * of_int m / of_int n + 1) / 2 ^ 49"
      by blast
  }
  fix k d a p
  assume "(k, d, a, p) \<in> set (occupancy_table_03_2025 nargsort nargsort_pct bm valid)"
  then have row: "d = map_of ?occ k" "a = map_of ?avail k"
    "p = OccupancyPct (map_of ?occ k) (map_of ?avail k)"
    unfolding tbl stats_set by blast+
  show "p = OccupancyPct d a" using row by simp
  fix v
  show "d = Some v \<longleftrightarrow> (k, v) \<in> set ?occ"
    using row(1) map_of_eq_Some_iff[OF occupied_days_distinct[OF assms(1), of bm], of k v]
    by metis
  show "a = Some v \<longleftrightarrow> (k, v) \<in> set ?avail"
    using row(2) map_of_eq_Some_iff[OF available_days_distinct[OF assms(1), of valid], of k v]
    by metis
qed

theorem occupancy_pct_witness:
  "sorts_descending (nargsort_stable :: int list \<Rightarrow> nat list)
   \<and> sorts_descending (nargsort_stable :: (int \<times> rat) list \<Rightarrow> nat list)
   \<and> occupancy_table_03_2025 nargsort_stable nargsort_stable
        (bookings_merged ex_bookings ex_tours ex_guides)
        (valid_avail_03 (availability_days_guides ex_guides ex_availability))
     = [(''G1'', Some 2, Some 1, Finite 200), (''G2'', Some 2, None, NaN)]
   \<and> fst ` set (occupancy_table_03_2025 nargsort_stable nargsort_stable
        (bookings_merged ex_bookings ex_tours ex_guides)
        (valid_avail_03 (availability_days_guides ex_guides ex_availability)))
     = fst ` set (occupied_days_03_2025 nargsort_stable
                    (bookings_merged ex_bookings ex_tours ex_guides))
       \<union> fst ` set (available_days_per_guide_03 nargsort_stable
                    (valid_avail_03 (availability_days_guides ex_guides ex_availability)))
   \<and> OccupancyPct (Some 23) (Some 160) = Finite (float64_of (1437 / 100))
   \<and> float64_of (1437 / 100) = 8089590830664253 / 562949953421312
   \<and> float64_of (float64_of (23 / 160) * 100) < 14375 / 1000
   \<and> OccupancyPct (Some 2) (Some 3) = Finite (float64_of (6667 / 100))
   \<and> OccupancyPct (Some 1) (Some 3) = Finite (float64_of (3333 / 100))
   \<and> OccupancyPct (Some 2) (Some 1) = Finite 200
   \<and> OccupancyPct (Some 5) (Some 0) = PosInf"
proof -
  have k1: "sorts_descending (nargsort_stable :: int list \<Rightarrow> nat list)"
    by (rule nargsort_stable_sorts)
  have k2: "sorts_descending (nargsort_stable :: (int \<times> rat) list \<Rightarrow> nat list)"
    by (rule nargsort_stable_sorts)
  have a: "occupancy_table_03_2025 nargsort_stable nargsort_stable
        (bookings_merged ex_bookings ex_tours ex_guides)
        (valid_avail_03 (availability_days_guides ex_guides ex_availability))
     = [(''G1'', Some 2, Some 1, Finite 200), (''G2'', Some 2, None, NaN)]"
    by code_simp
  have b1: "float64_of (of_int (rint (float64_of
               (float64_of (float64_of (float64_of (of_int 23) / float64_of (of_int 160)) * 100)
                * 100))) / 100) = float64_of (1437 / 100)"
    by code_simp
  have b2: "float64_of (of_int (rint (float64_of
               (float64_of (float64_of (float64_of (of_int 2) / float64_of (of_int 3)) * 100)
                * 100))) / 100) = float64_of (6667 / 100)"
    by code_simp
  have b3: "float64_of (of_int (rint (float64_of
               (float64_of (float64_of (float64_of (of_int 1) / float64_of (of_int 3)) * 100)
                * 100))) / 100) = float64_of (3333 / 100)"
    by code_simp
  have b4: "float64_of (of_int (rint (float64_of
               (float64_of (float64_of (float64_of (of_int 2) / float64_of (of_int 1)) * 100)
                * 100))) / 100) = 200"
    by code_simp
  have b5: "float64_of (1437 / 100) = 8089590830664253 / 562949953421312"
    by code_simp
  have b6: "float64_of (float64_of (23 / 160) * 100) < 14375 / 1000"
    by code_simp
  note t = occupancy_pct[OF k1 k2,
      where bm = "bookings_merged ex_bookings ex_tours ex_guides"
      and valid = "valid_avail_03 (availability_days_guides ex_guides ex_availability)"]
  from t[where m = 23 and n = 160]
  have c1: "OccupancyPct (Some 23) (Some 160) = Finite (float64_of (1437 / 100))"
    unfolding b1 by auto
  from t[where m = 2 and n = 3]
  have c2: "OccupancyPct (Some 2) (Some 3) = Finite (float64_of (6667 / 100))"
    unfolding b2 by auto
  from t[where m = 1 and n = 3]
  have c3: "OccupancyPct (Some 1) (Some 3) = Finite (float64_of (3333 / 100))"
    unfolding b3 by auto
  from t[where m = 2 and n = 1]
  have c4: "OccupancyPct (Some 2) (Some 1) = Finite 200"
    unfolding b4 by auto
  from t[where m = 5] have c5: "OccupancyPct (Some 5) (Some 0) = PosInf"
    by simp
  from t have c6: "fst ` set (occupancy_table_03_2025 nargsort_stable nargsort_stable
        (bookings_merged ex_bookings ex_tours ex_guides)
        (valid_avail_03 (availability_days_guides ex_guides ex_availability)))
     = fst ` set (occupied_days_03_2025 nargsort_stable
                    (bookings_merged ex_bookings ex_tours ex_guides))
       \<union> fst ` set (available_days_per_guide_03 nargsort_stable
                    (valid_avail_03 (availability_days_guides ex_guides ex_availability)))"
    by (rule conjunct1)
  from k1 k2 a c1 c2 c3 c4 c5 c6 b5 b6 show ?thesis by (simp only: simp_thms)
qed

text \<open>
  DaysOccupied = 5, AvailableDays = 0 is reported as plus infinity.  A guide booked on
  five days whose only availability record has a slot and no date has these values.
\<close>

theorem occupancy_zero_available_days:
  "OccupancyPct (Some 5) (Some 0) = PosInf
   \<and> occupancy_table_03_2025 nargsort_stable nargsort_stable
       (bookings_merged ex_busy ex_tours ex_guides)
       (valid_avail_03 (availability_days_guides ex_guides ex_undated))
     = [(''G1'', Some 5, Some 0, PosInf)]"
  by code_simp

subsection \<open>Most common time slot per location\<close>

lemma keep_first_max:
  assumes "sorted_wrt (\<lambda>a b. col b \<le> col a) xs"
    and "x \<in> set (keep_first key seen xs)" and "y \<in> set xs" and "key y = key x"
  shows "col y \<le> (col x :: int)"
  using assms
proof (induction xs arbitrary: seen)
  case Nil
  then show ?case by simp
next
  case (Cons z zs)
  from Cons.prems(1) have sorted_zs: "sorted_wrt (\<lambda>a b. col b \<le> col a) zs"
    and z_top: "\<forall>b \<in> set zs. col b \<le> col z" by simp_all
  show ?case
  proof (cases "key z \<in> set seen")
    case True
    with Cons.prems(2) have x: "x \<in> set (keep_first key seen zs)" by simp
    then have "key x \<notin> set seen" by (rule keep_first_not_seen)
    with True Cons.prems(4) have "y \<noteq> z" by auto
    with Cons.prems(3) have "y \<in> set zs" by simp
    from Cons.IH[OF sorted_zs x this Cons.prems(4)] show ?thesis .
  next
    case False
    with Cons.prems(2) have x: "x = z \<or> x \<in> set (keep_first key (key z # seen) zs)" by simp
    show ?thesis
    proof (cases "x = z")
      case True
      with Cons.prems(3) z_top show ?thesis by auto
    next
      case False
      with x have x': "x \<in> set (keep_first key (key z # seen) zs)" by simp
      then have "key x \<notin> set (key z # seen)" by (rule keep_first_not_seen)
      with Cons.prems(4) have "y \<noteq> z" by auto
      with Cons.prems(3) have "y \<in> set zs" by simp
      from Cons.IH[OF sorted_zs x' this Cons.prems(4)] show ?thesis .
    qed
  qed
qed

lemma slot_counts_set:
  "(loc, slot, c) \<in> set (slot_counts_03_2025 active) \<longleftrightarrow>
     (\<exists>t \<in> set active. TourLocation t = loc \<and> TimeSlot t = slot)
     \<and> c = int (length (filter (\<lambda>t. TourLocation t = loc \<and> TimeSlot t = slot) active))"
proof -
  have "(loc, slot) \<in> set (sort (remdups (map (\<lambda>t. (TourLocation t, TimeSlot t)) active)))
        \<longleftrightarrow> (\<exists>t \<in> set active. TourLocation t = loc \<and> TimeSlot t = slot)"
    by (force simp: image_iff)
  moreover have "(loc, slot, c) \<in> set (slot_counts_03_2025 active) \<longleftrightarrow>
      (loc, slot) \<in> set (sort (remdups (map (\<lambda>t. (TourLocation t, TimeSlot t)) active)))
      \<and> c = int (length (filter (\<lambda>t. (TourLocation t, TimeSlot t) = (loc, slot)) active))"
    unfolding slot_counts_03_2025_def set_map by force
  ultimately show ?thesis by simp
qed

lemma slot_counts_locations:
  "fst ` set (slot_counts_03_2025 active) = TourLocation ` set active"
proof -
  have "map fst (slot_counts_03_2025 active)
        = map fst (sort (remdups (map (\<lambda>t. (TourLocation t, TimeSlot t)) active)))"
    by (simp add: slot_counts_03_2025_def comp_def)
  then have "set (map fst (slot_counts_03_2025 active))
        = set (map fst (map (\<lambda>t. (TourLocation t, TimeSlot t)) active))"
    by (simp del: map_map)
  then show ?thesis by (simp add: comp_def)
qed

lemma count_pos:
  "t \<in> set xs \<Longrightarrow> P t \<Longrightarrow> 0 < int (length (filter P xs))"
  by (induction xs) auto

text \<open>
  C8. Only the tours whose weekly operating-day count is greater than 0 are considered;
  the time slot of a tour is built from TimeStart and TimeEnd; the result has exactly
  one row for every location of such a tour; the row gives a time slot of that location
  with the number of such tours of the location in that slot, and no time slot of the
  location has a greater number.  This holds whatever order the sort gives to equal
  counts.
\<close>

theorem dominant_time_slot:
  assumes "sorts_descending nargsort"
  shows
  "set (active_tours_03_2025 tours) = {t \<in> set tours. 0 < Tours_Operating_Days t}
   \<and> TimeSlot t' = TimeStart t' @ '' - '' @ TimeEnd t'
   \<and> distinct (map fst (top_slot_03_2025 nargsort tours))
   \<and> fst ` set (top_slot_03_2025 nargsort tours) = TourLocation ` set (active_tours_03_2025 tours)
   \<and> (\<forall>loc slot c. (loc, slot, c) \<in> set (top_slot_03_2025 nargsort tours) \<longrightarrow>
         (\<exists>t \<in> set (active_tours_03_2025 tours). TourLocation t = loc \<and> TimeSlot t = slot)
       \<and> c = int (length (filter (\<lambda>t. TourLocation t = loc \<and> TimeSlot t = slot)
                                 (active_tours_03_2025 tours)))
       \<and> (\<forall>slot'. int (length (filter (\<lambda>t. TourLocation t = loc \<and> TimeSlot t = slot')
                                 (active_tours_03_2025 tours))) \<le> c))"
proof (intro conjI allI impI)
  let ?A = "active_tours_03_2025 tours"
  let ?S = "sort_values_desc nargsort (\<lambda>r. snd (snd r)) (slot_counts_03_2025 ?A)"
  have top: "top_slot_03_2025 nargsort tours = keep_first fst [] ?S"
    by (simp add: top_slot_03_2025_def drop_duplicates_def)
  show "set ?A = {t \<in> set tours. 0 < Tours_Operating_Days t}"
    by (simp add: active_tours_03_2025_def)
  show "TimeSlot t' = TimeStart t' @ '' - '' @ TimeEnd t'" by (simp add: TimeSlot_def)
  show "distinct (map fst (top_slot_03_2025 nargsort tours))"
    unfolding top by (rule keep_first_distinct)
  have "fst ` set (top_slot_03_2025 nargsort tours) = fst ` set ?S - set []"
    unfolding top by (rule keep_first_keys)
  then show "fst ` set (top_slot_03_2025 nargsort tours) = TourLocation ` set ?A"
    by (simp add: set_sort_values_desc[OF assms] slot_counts_locations)
  fix loc slot c
  assume r: "(loc, slot, c) \<in> set (top_slot_03_2025 nargsort tours)"
  then have inS: "(loc, slot, c) \<in> set ?S"
    unfolding top using keep_first_subset[of fst "[]" ?S] by blast
  then have sc: "(loc, slot, c) \<in> set (slot_counts_03_2025 ?A)"
    by (simp add: set_sort_values_desc[OF assms])
  then show ex: "\<exists>t \<in> set ?A. TourLocation t = loc \<and> TimeSlot t = slot"
    and c: "c = int (length (filter (\<lambda>t. TourLocation t = loc \<and> TimeSlot t = slot) ?A))"
    unfolding slot_counts_set by simp_all
  have sorted: "sorted_wrt (\<lambda>a b. snd (snd b) \<le> snd (snd a)) ?S"
    by (rule sorted_sort_values_desc[OF assms])
  fix slot'
  let ?c' = "int (length (filter (\<lambda>t. TourLocation t = loc \<and> TimeSlot t = slot') ?A))"
  show "?c' \<le> c"
  proof (cases "\<exists>t \<in> set ?A. TourLocation t = loc \<and> TimeSlot t = slot'")
    case True
    then have "(loc, slot', ?c') \<in> set (slot_counts_03_2025 ?A)"
      unfolding slot_counts_set by simp
    then have y: "(loc, slot', ?c') \<in> set ?S" by (simp add: set_sort_values_desc[OF assms])
    from keep_first_max[OF sorted r[unfolded top] y] show ?thesis by simp
  next
    case False
    then have "filter (\<lambda>t. TourLocation t = loc \<and> TimeSlot t = slot') ?A = []"
      by (simp add: filter_empty_conv)
    moreover have "0 < c" using ex c count_pos[of _ ?A "\<lambda>t. TourLocation t = loc \<and> TimeSlot t = slot"]
      by blast
    ultimately show ?thesis by simp
  qed
qed

theorem dominant_time_slot_witness:
  "sorts_descending (nargsort_stable :: int list \<Rightarrow> nat list)
   \<and> top_slot_03_2025 nargsort_stable ex_tours = [(''Madrid'', ''09:00 - 11:00'', 2), (''Sevilla'', ''10:00 - 12:00'', 1)]
   \<and> map TourName (active_tours_03_2025 ex_tours) = [''T1'', ''T2'', ''T3'', ''T4'']
   \<and> (''Madrid'', ''09:00 - 11:00'', 2) \<in> set (top_slot_03_2025 nargsort_stable ex_tours)
   \<and> int (length (filter (\<lambda>t. TourLocation t = ''Madrid'' \<and> TimeSlot t = ''15:00 - 17:00'')
                         (active_tours_03_2025 ex_tours))) \<le> 2"
proof -
  have k: "sorts_descending (nargsort_stable :: int list \<Rightarrow> nat list)"
    by (rule nargsort_stable_sorts)
  have a: "top_slot_03_2025 nargsort_stable ex_tours
      = [(''Madrid'', ''09:00 - 11:00'', 2), (''Sevilla'', ''10:00 - 12:00'', 1)]"
    by code_simp
  have b: "map TourName (active_tours_03_2025 ex_tours) = [''T1'', ''T2'', ''T3'', ''T4'']"
    by code_simp
  have c: "(''Madrid'', ''09:00 - 11:00'', 2) \<in> set (top_slot_03_2025 nargsort_stable ex_tours)"
    by (simp add: a)
  from dominant_time_slot[OF k, of ex_tours]
  have "\<And>loc slot c slot'. (loc, slot, c) \<in> set (top_slot_03_2025 nargsort_stable ex_tours) \<Longrightarrow>
     int (length (filter (\<lambda>t. TourLocation t = loc \<and> TimeSlot t = slot')
                                 (active_tours_03_2025 ex_tours))) \<le> c"
    by blast
  from this[OF c] k a b c show ?thesis by simp
qed

subsection \<open>Combining the months\<close>

lemma side_rows:
  "set (let ls = map snd (filter (\<lambda>r. fst r = k) F)
        in if ls = [] then [replicate w None] else ls)
   = (if k \<in> fst ` set F then {c. (k, c) \<in> set F} else {replicate w None})"
proof (cases "k \<in> fst ` set F")
  case True
  then have "filter (\<lambda>r. fst r = k) F \<noteq> []" by (force simp: filter_empty_conv)
  moreover have "set (map snd (filter (\<lambda>r. fst r = k) F)) = {c. (k, c) \<in> set F}" by force
  ultimately show ?thesis using True by (simp add: Let_def)
next
  case False
  then have "filter (\<lambda>r. fst r = k) F = []" by (force simp: filter_empty_conv)
  with False show ?thesis by (simp add: Let_def)
qed

lemma pair_rows:
  "set (concat (map (\<lambda>l. map (\<lambda>r. (k, l @ r)) rs) ls))
   = {(k, l @ r) | l r. l \<in> set ls \<and> r \<in> set rs}"
  by auto

lemma merge_outer_set:
  "set (merge_outer wl wr L R) =
     {(k, l @ r) | k l r. k \<in> fst ` set L \<union> fst ` set R
        \<and> l \<in> (if k \<in> fst ` set L then {c. (k, c) \<in> set L} else {replicate wl None})
        \<and> r \<in> (if k \<in> fst ` set R then {c. (k, c) \<in> set R} else {replicate wr None})}"
proof -
  have key: "set (let ls = map snd (filter (\<lambda>r. fst r = k) L);
            rs = map snd (filter (\<lambda>r. fst r = k) R);
            ls' = (if ls = [] then [replicate wl None] else ls);
            rs' = (if rs = [] then [replicate wr None] else rs)
        in concat (map (\<lambda>l. map (\<lambda>r. (k, l @ r)) rs') ls'))
     = {(k, l @ r) | l r.
          l \<in> (if k \<in> fst ` set L then {c. (k, c) \<in> set L} else {replicate wl None})
        \<and> r \<in> (if k \<in> fst ` set R then {c. (k, c) \<in> set R} else {replicate wr None})}" for k
  proof -
    have "set (let ls = map snd (filter (\<lambda>r. fst r = k) L);
            rs = map snd (filter (\<lambda>r. fst r = k) R);
            ls' = (if ls = [] then [replicate wl None] else ls);
            rs' = (if rs = [] then [replicate wr None] else rs)
        in concat (map (\<lambda>l. map (\<lambda>r. (k, l @ r)) rs') ls'))
      = {(k, l @ r) | l r.
           l \<in> set (let ls = map snd (filter (\<lambda>r. fst r = k) L)
                     in if ls = [] then [replicate wl None] else ls)
         \<and> r \<in> set (let rs = map snd (filter (\<lambda>r. fst r = k) R)
                     in if rs = [] then [replicate wr None] else rs)}"
      unfolding Let_def by (rule pair_rows)
    then show ?thesis by (simp only: side_rows)
  qed
  have keys: "set (sort (remdups (map fst L @ map fst R))) = fst ` set L \<union> fst ` set R"
    by simp
  show ?thesis
    unfolding merge_outer_def set_concat set_map image_image key keys by blast
qed

lemma merge_outer_keys:
  "fst ` set (merge_outer wl wr L R) = fst ` set L \<union> fst ` set R"
proof
  show "fst ` set (merge_outer wl wr L R) \<subseteq> fst ` set L \<union> fst ` set R"
    unfolding merge_outer_set by force
  show "fst ` set L \<union> fst ` set R \<subseteq> fst ` set (merge_outer wl wr L R)"
  proof
    fix k assume k: "k \<in> fst ` set L \<union> fst ` set R"
    obtain l where l: "l \<in> (if k \<in> fst ` set L then {c. (k, c) \<in> set L} else {replicate wl None})"
      by (cases "k \<in> fst ` set L") force+
    obtain r where r: "r \<in> (if k \<in> fst ` set R then {c. (k, c) \<in> set R} else {replicate wr None})"
      by (cases "k \<in> fst ` set R") force+
    from k l r have "(k, l @ r) \<in> set (merge_outer wl wr L R)"
      unfolding merge_outer_set by blast
    then show "k \<in> fst ` set (merge_outer wl wr L R)" by (rule rev_image_eqI) simp
  qed
qed

lemma reset_index_keys: "fst ` set (reset_index s) = fst ` set s"
  by (simp add: reset_index_def image_image)

lemma reset_index_row:
  "(k, c) \<in> set (reset_index s) \<longleftrightarrow> (\<exists>v. c = [Some v] \<and> (k, v) \<in> set s)"
proof
  assume "(k, c) \<in> set (reset_index s)"
  then obtain r where "r \<in> set s" "k = fst r" "c = [Some (snd r)]"
    by (auto simp: reset_index_def)
  then have "c = [Some (snd r)] \<and> (k, snd r) \<in> set s" by simp
  then show "\<exists>v. c = [Some v] \<and> (k, v) \<in> set s" by blast
next
  assume "\<exists>v. c = [Some v] \<and> (k, v) \<in> set s"
  then obtain v where "c = [Some v]" "(k, v) \<in> set s" by blast
  then have "(k, c) = (\<lambda>r. (fst r, [Some (snd r)])) (k, v)" "(k, v) \<in> set s" by simp_all
  then show "(k, c) \<in> set (reset_index s)"
    unfolding reset_index_def set_map by (rule image_eqI)
qed

text \<open>
  A frame that holds the columns of the series \<open>Ss\<close>, joined with one more series.
\<close>

lemma merge_outer_step:
  assumes keys: "fst ` set F = (\<Union>s \<in> set Ss. fst ` set s)"
    and rows: "\<forall>k cs. (k, cs) \<in> set F \<longrightarrow> length cs = length Ss \<and>
        (\<forall>i < length Ss. if k \<in> fst ` set (Ss ! i)
            then (\<exists>v. cs ! i = Some v \<and> (k, v) \<in> set (Ss ! i)) else cs ! i = None)"
  shows "fst ` set (merge_outer (length Ss) 1 F (reset_index s)) = (\<Union>s \<in> set (Ss @ [s]). fst ` set s)"
    and "\<forall>k cs. (k, cs) \<in> set (merge_outer (length Ss) 1 F (reset_index s)) \<longrightarrow>
        length cs = length (Ss @ [s]) \<and>
        (\<forall>i < length (Ss @ [s]). if k \<in> fst ` set ((Ss @ [s]) ! i)
            then (\<exists>v. cs ! i = Some v \<and> (k, v) \<in> set ((Ss @ [s]) ! i)) else cs ! i = None)"
proof -
  show "fst ` set (merge_outer (length Ss) 1 F (reset_index s)) = (\<Union>s \<in> set (Ss @ [s]). fst ` set s)"
    unfolding merge_outer_keys keys reset_index_keys by auto
  show "\<forall>k cs. (k, cs) \<in> set (merge_outer (length Ss) 1 F (reset_index s)) \<longrightarrow>
        length cs = length (Ss @ [s]) \<and>
        (\<forall>i < length (Ss @ [s]). if k \<in> fst ` set ((Ss @ [s]) ! i)
            then (\<exists>v. cs ! i = Some v \<and> (k, v) \<in> set ((Ss @ [s]) ! i)) else cs ! i = None)"
  proof (intro allI impI)
    fix k cs assume "(k, cs) \<in> set (merge_outer (length Ss) 1 F (reset_index s))"
    then obtain l r where cs: "cs = l @ r"
      and l: "l \<in> (if k \<in> fst ` set F then {c. (k, c) \<in> set F} else {replicate (length Ss) None})"
      and r: "r \<in> (if k \<in> fst ` set (reset_index s) then {c. (k, c) \<in> set (reset_index s)}
                    else {replicate 1 None})"
      unfolding merge_outer_set by blast
    have len_l: "length l = length Ss"
      using l rows by (cases "k \<in> fst ` set F") auto
    have cell_l: "if k \<in> fst ` set (Ss ! i)
            then (\<exists>v. l ! i = Some v \<and> (k, v) \<in> set (Ss ! i)) else l ! i = None"
      if i: "i < length Ss" for i
    proof (cases "k \<in> fst ` set F")
      case True
      with l have "(k, l) \<in> set F" by simp
      with rows i show ?thesis by blast
    next
      case False
      with l have "l = replicate (length Ss) None" by simp
      moreover from False keys i have "k \<notin> fst ` set (Ss ! i)"
        using nth_mem[OF i] by blast
      ultimately show ?thesis using i by simp
    qed
    have cell_r: "length r = 1 \<and> (if k \<in> fst ` set s
            then (\<exists>v. r ! 0 = Some v \<and> (k, v) \<in> set s) else r ! 0 = None)"
    proof (cases "k \<in> fst ` set s")
      case True
      with r have "(k, r) \<in> set (reset_index s)" by (simp add: reset_index_keys)
      then obtain v where "r = [Some v]" "(k, v) \<in> set s" unfolding reset_index_row by blast
      with True show ?thesis by simp
    next
      case False
      with r have "r = [None]" by (simp add: reset_index_keys)
      with False show ?thesis by simp
    qed
    show "length cs = length (Ss @ [s]) \<and>
        (\<forall>i < length (Ss @ [s]). if k \<in> fst ` set ((Ss @ [s]) ! i)
            then (\<exists>v. cs ! i = Some v \<and> (k, v) \<in> set ((Ss @ [s]) ! i)) else cs ! i = None)"
    proof (intro conjI allI impI)
      show "length cs = length (Ss @ [s])" using cs len_l cell_r by simp
      fix i assume "i < length (Ss @ [s])"
      then consider "i < length Ss" | "i = length Ss" by fastforce
      then show "if k \<in> fst ` set ((Ss @ [s]) ! i)
            then (\<exists>v. cs ! i = Some v \<and> (k, v) \<in> set ((Ss @ [s]) ! i)) else cs ! i = None"
      proof cases
        case 1
        then show ?thesis using cell_l[OF 1] cs len_l by (simp add: nth_append)
      next
        case 2
        then show ?thesis using cell_r cs len_l by (simp add: nth_append)
      qed
    qed
  qed
qed

lemma four_months_frame:
  fixes s03 s04 s05 s06 :: series
  defines "M \<equiv> merge_outer 3 1
             (merge_outer 2 1
                (merge_outer 1 1 (reset_index s03) (reset_index s04))
                (reset_index s05))
             (reset_index s06)"
  shows "fst ` set M = fst ` set s03 \<union> fst ` set s04 \<union> fst ` set s05 \<union> fst ` set s06"
    and "\<forall>k cs. (k, cs) \<in> set M \<longrightarrow> length cs = 4 \<and>
        (\<forall>i < 4. if k \<in> fst ` set ([s03, s04, s05, s06] ! i)
            then (\<exists>v. cs ! i = Some v \<and> (k, v) \<in> set ([s03, s04, s05, s06] ! i))
            else cs ! i = None)"
proof -
  let ?F0 = "reset_index s03"
  let ?F1 = "merge_outer 1 1 ?F0 (reset_index s04)"
  let ?F2 = "merge_outer 2 1 ?F1 (reset_index s05)"
  have k0: "fst ` set ?F0 = (\<Union>s \<in> set [s03]. fst ` set s)"
    by (simp add: reset_index_keys)
  have r0: "\<forall>k cs. (k, cs) \<in> set ?F0 \<longrightarrow> length cs = length [s03] \<and>
        (\<forall>i < length [s03]. if k \<in> fst ` set ([s03] ! i)
            then (\<exists>v. cs ! i = Some v \<and> (k, v) \<in> set ([s03] ! i)) else cs ! i = None)"
  proof (intro allI impI)
    fix k cs assume "(k, cs) \<in> set ?F0"
    then obtain v where v: "cs = [Some v]" "(k, v) \<in> set s03"
      unfolding reset_index_row by blast
    then have "k \<in> fst ` set s03" by (metis fst_conv image_eqI)
    with v show "length cs = length [s03] \<and>
        (\<forall>i < length [s03]. if k \<in> fst ` set ([s03] ! i)
            then (\<exists>v. cs ! i = Some v \<and> (k, v) \<in> set ([s03] ! i)) else cs ! i = None)"
      by simp
  qed
  note s1 = merge_outer_step[OF k0 r0, of s04]
  have l1: "merge_outer (length [s03]) 1 ?F0 (reset_index s04) = ?F1" by simp
  note s1' = s1[unfolded l1 append_Cons append_Nil]
  note s2 = merge_outer_step[OF s1', of s05]
  have l2: "merge_outer (length [s03, s04]) 1 ?F1 (reset_index s05) = ?F2"
    by (simp add: numeral_2_eq_2)
  note s2' = s2[unfolded l2 append_Cons append_Nil]
  note s3 = merge_outer_step[OF s2', of s06]
  have l3: "merge_outer (length [s03, s04, s05]) 1 ?F2 (reset_index s06) = M"
    by (simp add: M_def numeral_2_eq_2 numeral_3_eq_3)
  note s3' = s3[unfolded l3 append_Cons append_Nil]
  from s3'(1) show "fst ` set M = fst ` set s03 \<union> fst ` set s04 \<union> fst ` set s05 \<union> fst ` set s06"
    by (simp add: Un_assoc)
  from s3'(2) show "\<forall>k cs. (k, cs) \<in> set M \<longrightarrow> length cs = 4 \<and>
        (\<forall>i < 4. if k \<in> fst ` set ([s03, s04, s05, s06] ! i)
            then (\<exists>v. cs ! i = Some v \<and> (k, v) \<in> set ([s03, s04, s05, s06] ! i))
            else cs ! i = None)"
    by simp
qed

lemma fillna0_keys: "fst ` set (fillna0 f) = fst ` set f"
  by (simp add: fillna0_def image_image)

lemma sum_four:
  "length cs = 4 \<Longrightarrow> sum_list cs = cs ! 0 + cs ! 1 + cs ! 2 + (cs ! 3 :: int)"
  by (auto simp: numeral_eq_Suc length_Suc_conv)

text \<open>
  C2. The combined table of four per-month series has exactly the names that occur in
  some month; every row has four integer cells, the cell of a month being a value the
  month's series gives for the name, or 0 when the month has no such name; and Total is
  the sum of the four cells.  The table of operating days is the same table sorted by
  Total in descending order, whatever order the sort gives to equal totals.
\<close>

theorem combined_table:
  assumes "sorts_descending nargsort"
  shows
  "fst ` set (merged s03 s04 s05 s06)
     = fst ` set s03 \<union> fst ` set s04 \<union> fst ` set s05 \<union> fst ` set s06
   \<and> (\<forall>k cs total. (k, cs, total) \<in> set (merged s03 s04 s05 s06) \<longrightarrow>
         length cs = 4 \<and> total = sum_list cs
         \<and> (\<forall>i < 4. if k \<in> fst ` set ([s03, s04, s05, s06] ! i)
               then (k, cs ! i) \<in> set ([s03, s04, s05, s06] ! i)
               else cs ! i = 0))
   \<and> location_days_combined nargsort s03 s04 s05 s06
       = sort_values_desc nargsort (\<lambda>r. snd (snd r)) (merged s03 s04 s05 s06)
   \<and> set (location_days_combined nargsort s03 s04 s05 s06) = set (merged s03 s04 s05 s06)
   \<and> sorted_wrt (\<lambda>a b. snd (snd b) \<le> snd (snd a)) (location_days_combined nargsort s03 s04 s05 s06)"
proof (intro conjI allI impI)
  let ?M = "merge_outer 3 1
             (merge_outer 2 1
                (merge_outer 1 1 (reset_index s03) (reset_index s04))
                (reset_index s05))
             (reset_index s06)"
  let ?g = "\<lambda>r :: string \<times> int list. (fst r, snd r, snd r ! 0 + snd r ! 1 + snd r ! 2 + snd r ! 3)"
  have m: "merged s03 s04 s05 s06 = map ?g (fillna0 ?M)" by (simp add: merged_def)
  have "fst ` set (merged s03 s04 s05 s06) = fst ` set (fillna0 ?M)"
    unfolding m by (simp add: image_image)
  then show "fst ` set (merged s03 s04 s05 s06)
     = fst ` set s03 \<union> fst ` set s04 \<union> fst ` set s05 \<union> fst ` set s06"
    by (simp only: fillna0_keys four_months_frame(1))
  show ldc: "location_days_combined nargsort s03 s04 s05 s06
       = sort_values_desc nargsort (\<lambda>r. snd (snd r)) (merged s03 s04 s05 s06)"
    by (simp add: location_days_combined_def merged_def)
  show "set (location_days_combined nargsort s03 s04 s05 s06) = set (merged s03 s04 s05 s06)"
    unfolding ldc by (rule set_sort_values_desc[OF assms])
  show "sorted_wrt (\<lambda>a b. snd (snd b) \<le> snd (snd a)) (location_days_combined nargsort s03 s04 s05 s06)"
    unfolding ldc by (rule sorted_sort_values_desc[OF assms])
next
  let ?M = "merge_outer 3 1
             (merge_outer 2 1
                (merge_outer 1 1 (reset_index s03) (reset_index s04))
                (reset_index s05))
             (reset_index s06)"
  let ?fill = "\<lambda>c :: int option. case c of None \<Rightarrow> 0 | Some v \<Rightarrow> v"
  fix k cs total
  assume "(k, cs, total) \<in> set (merged s03 s04 s05 s06)"
  then obtain r where r: "r \<in> set ?M" and k: "k = fst r" and cs: "cs = map ?fill (snd r)"
    and total: "total = cs ! 0 + cs ! 1 + cs ! 2 + cs ! 3"
    by (auto simp: merged_def fillna0_def)
  from r k have "(k, snd r) \<in> set ?M" by simp
  with four_months_frame(2)[of s03 s04 s05 s06]
  have len: "length (snd r) = 4"
    and cells: "\<And>i. i < 4 \<Longrightarrow> (if k \<in> fst ` set ([s03, s04, s05, s06] ! i)
            then (\<exists>v. snd r ! i = Some v \<and> (k, v) \<in> set ([s03, s04, s05, s06] ! i))
            else snd r ! i = None)"
    by blast+
  show len': "length cs = 4" using len cs by simp
  show "total = sum_list cs" using total sum_four[OF len'] by simp
  fix i :: nat assume i: "i < 4"
  then have nth: "cs ! i = ?fill (snd r ! i)" using cs len by simp
  show "if k \<in> fst ` set ([s03, s04, s05, s06] ! i)
               then (k, cs ! i) \<in> set ([s03, s04, s05, s06] ! i)
               else cs ! i = 0"
  proof (cases "k \<in> fst ` set ([s03, s04, s05, s06] ! i)")
    case True
    with cells[OF i] obtain v where "snd r ! i = Some v" "(k, v) \<in> set ([s03, s04, s05, s06] ! i)"
      by auto
    with True nth show ?thesis by simp
  next
    case False
    with cells[OF i] have "snd r ! i = None" by simp
    with False nth show ?thesis by simp
  qed
qed

theorem combined_table_witness:
  "sorts_descending (nargsort_stable :: int list \<Rightarrow> nat list)
   \<and> merged [(''A'', 5), (''B'', 1)] [(''B'', 3)] [] [(''C'', 2), (''A'', 1)]
     = [(''A'', [5, 0, 0, 1], 6), (''B'', [1, 3, 0, 0], 4), (''C'', [0, 0, 0, 2], 2)]
   \<and> location_days_combined nargsort_stable [(''A'', 1), (''B'', 1)] [(''B'', 3)] [] [(''C'', 7), (''A'', 1)]
     = [(''C'', [0, 0, 0, 7], 7), (''B'', [1, 3, 0, 0], 4), (''A'', [1, 0, 0, 1], 2)]
   \<and> fst ` set (merged [(''A'', 5), (''B'', 1)] [(''B'', 3)] [] [(''C'', 2), (''A'', 1)])
     = {''A'', ''B'', ''C''}"
proof -
  have k: "sorts_descending (nargsort_stable :: int list \<Rightarrow> nat list)"
    by (rule nargsort_stable_sorts)
  have a: "merged [(''A'', 5), (''B'', 1)] [(''B'', 3)] [] [(''C'', 2), (''A'', 1)]
     = [(''A'', [5, 0, 0, 1], 6), (''B'', [1, 3, 0, 0], 4), (''C'', [0, 0, 0, 2], 2)]"
    by code_simp
  have b: "location_days_combined nargsort_stable [(''A'', 1), (''B'', 1)] [(''B'', 3)] [] [(''C'', 7), (''A'', 1)]
     = [(''C'', [0, 0, 0, 7], 7), (''B'', [1, 3, 0, 0], 4), (''A'', [1, 0, 0, 1], 2)]"
    by code_simp
  from combined_table[OF k, of "[(''A'', 5), (''B'', 1)]" "[(''B'', 3)]" "[]" "[(''C'', 2), (''A'', 1)]"]
  have "fst ` set (merged [(''A'', 5), (''B'', 1)] [(''B'', 3)] [] [(''C'', 2), (''A'', 1)])
     = fst ` set [(''A'', 5::int), (''B'', 1)] \<union> fst ` set [(''B'', 3::int)]
       \<union> fst ` set ([] :: series) \<union> fst ` set [(''C'', 2::int), (''A'', 1)]"
    by blast
  then have "fst ` set (merged [(''A'', 5), (''B'', 1)] [(''B'', 3)] [] [(''C'', 2), (''A'', 1)])
     = {''A'', ''B'', ''C''}"
    by (simp only: list.set image_insert image_empty fst_conv Un_insert_left Un_insert_right
        Un_empty_left Un_empty_right insert_absorb2 insert_commute) 
  with k a b show ?thesis by (simp only: simp_thms)
qed

end
